theory Spec2Isabelle
  imports Main "HOL-Library.Sublist" "HOL-Library.AList"
begin

section \<open>The portal's startup pipeline: server/app/__init__.py\<close>

text \<open>
  The module compiles the HTML fragments of \<^verbatim>\<open>htdocs/\<close> against a master template
  (\<^verbatim>\<open>compile_html\<close>), stamping the template's script references with sub-resource
  integrity values (\<^verbatim>\<open>file_to_sri\<close>), and drops its background tasks at shutdown.

  Modelling decisions.
  \<^item> Bytes are lists of \<^typ>\<open>char\<close> (8-bit). The locale's text encoding is UTF-8, and a text is
    held as its UTF-8 bytes: reading in text mode (\<^verbatim>\<open>open(p).read()\<close>) raises
    \<^verbatim>\<open>UnicodeDecodeError\<close> on bytes that are not UTF-8 and applies Python's universal newlines
    translation; writing in text mode on POSIX leaves newlines as they are. The pattern, the
    placeholder and the delimiters the code searches for are ASCII, so that searching the
    bytes finds what searching the characters finds.
  \<^item> The file system is an association list from canonical paths (the list of names from
    the root) to nodes. A path string is resolved the way the kernel does it, component by
    component: empty components and \<^verbatim>\<open>.\<close> are skipped, \<^verbatim>\<open>..\<close> goes to the parent, and every
    directory on the way has to exist and to be searchable. The root is a directory that the
    process may read and search. The process owns every node and is not the superuser: of a
    directory's mode the owner's bits are read. Hard links, symbolic links, limits on the
    length of names and the umask are outside the model. The order of \<^verbatim>\<open>os.listdir\<close> is the
    order of the association list.
  \<^item> \<^verbatim>\<open>hashlib.sha384\<close> is a library function: it is a parameter \<open>sha384\<close> of the model.
    \<^verbatim>\<open>os.path.realpath("..")\<close>, evaluated when the module is imported, is the parameter
    \<open>updir\<close>; it is an absolute path, and a relative path would be resolved from the root.
  \<^item> \<^verbatim>\<open>log.log\<close> and \<^verbatim>\<open>print\<close> add a line to the trace and do not fail.
  \<^item> An exception that leaves \<^verbatim>\<open>compile_html\<close> is the first component of its result; the
    second is the world at that moment.
\<close>

subsection \<open>Files, errors, effects\<close>

type_synonym path = string
type_synonym bytes = string
type_synonym cpath = "string list"

datatype node = File (readable: bool) (writable: bool) (content: bytes) | Dir (mode: nat)

type_synonym filesystem = "(cpath \<times> node) list"

datatype error =
  FileNotFoundError | IsADirectoryError | NotADirectoryError | PermissionError | FileExistsError
  | ValueError | UnicodeDecodeError

datatype event = LogLine string | PrintLine string | MakeDirs path nat | WriteFile path string

record world =
  files :: filesystem
  trace :: "event list"

definition emit :: "event \<Rightarrow> world \<Rightarrow> world" where
  "emit e w = w\<lparr>trace := trace w @ [e]\<rparr>"

text \<open>The owner's permission bits of a mode: read \<^verbatim>\<open>0o400\<close>, write \<^verbatim>\<open>0o200\<close>, search \<^verbatim>\<open>0o100\<close>.\<close>

definition owner_r :: "nat \<Rightarrow> bool" where
  "owner_r m = odd (m div 256)"

definition owner_w :: "nat \<Rightarrow> bool" where
  "owner_w m = odd (m div 128)"

definition owner_x :: "nat \<Rightarrow> bool" where
  "owner_x m = odd (m div 64)"

text \<open>The node at a canonical path; the root is a directory with mode \<^verbatim>\<open>0o555\<close>.\<close>

definition lookup :: "filesystem \<Rightarrow> cpath \<Rightarrow> node option" where
  "lookup fs cp = (if cp = [] then Some (Dir 365) else map_of fs cp)"

text \<open>\<^verbatim>\<open>p.split("/")\<close>: the components of a path string.\<close>

fun split_from :: "string \<Rightarrow> path \<Rightarrow> string list" where
  "split_from acc [] = [acc]"
| "split_from acc (c # cs) =
     (if c = CHR ''/'' then acc # split_from [] cs else split_from (acc @ [c]) cs)"

definition split_path :: "path \<Rightarrow> string list" where
  "split_path p = split_from [] p"

text \<open>
  Path resolution from the directory \<open>cur\<close>: before a component is looked at, \<open>cur\<close> has to
  be a directory the process may search.
\<close>

fun walk :: "filesystem \<Rightarrow> cpath \<Rightarrow> string list \<Rightarrow> error + cpath" where
  "walk fs cur [] = Inr cur"
| "walk fs cur (c # cs) =
     (case lookup fs cur of
        None \<Rightarrow> Inl FileNotFoundError
      | Some (File r w d) \<Rightarrow> Inl NotADirectoryError
      | Some (Dir m) \<Rightarrow>
          if \<not> owner_x m then Inl PermissionError
          else if c = [] \<or> c = ''.'' then walk fs cur cs
          else if c = ''..'' then walk fs (butlast cur) cs
          else walk fs (cur @ [c]) cs)"

text \<open>
  The canonical path a path string names. The empty path names nothing, and Python refuses
  a path with a NUL character before the kernel sees it.
\<close>

definition resolve :: "filesystem \<Rightarrow> path \<Rightarrow> error + cpath" where
  "resolve fs p =
     (if p = [] then Inl FileNotFoundError
      else if CHR 0x00 \<in> set p then Inl ValueError
      else walk fs [] (split_path p))"

text \<open>\<^verbatim>\<open>os.stat(p)\<close>: the canonical path and the node.\<close>

definition stat :: "filesystem \<Rightarrow> path \<Rightarrow> error + (cpath \<times> node)" where
  "stat fs p =
     (case resolve fs p of
        Inl e \<Rightarrow> Inl e
      | Inr cp \<Rightarrow> (case lookup fs cp of None \<Rightarrow> Inl FileNotFoundError | Some n \<Rightarrow> Inr (cp, n)))"

text \<open>\<^verbatim>\<open>os.path.isfile\<close> and \<^verbatim>\<open>os.path.isdir\<close> answer \<^verbatim>\<open>False\<close> when \<^verbatim>\<open>os.stat\<close> raises.\<close>

definition isfile :: "filesystem \<Rightarrow> path \<Rightarrow> bool" where
  "isfile fs p = (case stat fs p of Inr (cp, File r w c) \<Rightarrow> True | _ \<Rightarrow> False)"

definition isdir :: "filesystem \<Rightarrow> path \<Rightarrow> bool" where
  "isdir fs p = (case stat fs p of Inr (cp, Dir m) \<Rightarrow> True | _ \<Rightarrow> False)"

text \<open>\<^verbatim>\<open>open(p, "rb").read()\<close>: the bytes of a readable regular file.\<close>

definition read_bytes :: "filesystem \<Rightarrow> path \<Rightarrow> error + bytes" where
  "read_bytes fs p =
     (case stat fs p of
        Inl e \<Rightarrow> Inl e
      | Inr (cp, Dir m) \<Rightarrow> Inl IsADirectoryError
      | Inr (cp, File r w c) \<Rightarrow> if r then Inr c else Inl PermissionError)"

text \<open>
  The strict UTF-8 decoder accepts the shortest encodings of the code points up to
  \<^verbatim>\<open>U+10FFFF\<close>, the surrogates left out.
\<close>

definition cont :: "char \<Rightarrow> bool" where
  "cont c = (128 \<le> (of_char c :: nat) \<and> (of_char c :: nat) < 192)"

fun utf8_valid :: "bytes \<Rightarrow> bool" where
  "utf8_valid [] = True"
| "utf8_valid [a] = ((of_char a :: nat) < 128)"
| "utf8_valid [a, b] =
     (if (of_char a :: nat) < 128 then utf8_valid [b]
      else 194 \<le> (of_char a :: nat) \<and> (of_char a :: nat) < 224 \<and> cont b)"
| "utf8_valid [a, b, c] =
     (if (of_char a :: nat) < 128 then utf8_valid [b, c]
      else if (of_char a :: nat) < 194 then False
      else if (of_char a :: nat) < 224 then cont b \<and> utf8_valid [c]
      else if (of_char a :: nat) < 240 then
        cont b \<and> cont c
        \<and> (if (of_char a :: nat) = 224 then 160 \<le> (of_char b :: nat) else True)
        \<and> (if (of_char a :: nat) = 237 then (of_char b :: nat) < 160 else True)
      else False)"
| "utf8_valid (a # b # c # d # s) =
     (if (of_char a :: nat) < 128 then utf8_valid (b # c # d # s)
      else if (of_char a :: nat) < 194 then False
      else if (of_char a :: nat) < 224 then cont b \<and> utf8_valid (c # d # s)
      else if (of_char a :: nat) < 240 then
        cont b \<and> cont c
        \<and> (if (of_char a :: nat) = 224 then 160 \<le> (of_char b :: nat) else True)
        \<and> (if (of_char a :: nat) = 237 then (of_char b :: nat) < 160 else True)
        \<and> utf8_valid (d # s)
      else if (of_char a :: nat) < 245 then
        cont b \<and> cont c \<and> cont d
        \<and> (if (of_char a :: nat) = 240 then 144 \<le> (of_char b :: nat) else True)
        \<and> (if (of_char a :: nat) = 244 then (of_char b :: nat) < 144 else True)
        \<and> utf8_valid s
      else False)"

text \<open>Universal newlines: \<^verbatim>\<open>\r\n\<close> and a lone \<^verbatim>\<open>\r\<close> are read as \<^verbatim>\<open>\n\<close>.\<close>

fun universal_newlines :: "bytes \<Rightarrow> string" where
  "universal_newlines [] = []"
| "universal_newlines [c] = (if c = CHR 0x0D then [CHR 0x0A] else [c])"
| "universal_newlines (c # d # cs) =
     (if c = CHR 0x0D \<and> d = CHR 0x0A then CHR 0x0A # universal_newlines cs
      else if c = CHR 0x0D then CHR 0x0A # universal_newlines (d # cs)
      else c # universal_newlines (d # cs))"

text \<open>\<^verbatim>\<open>open(p).read()\<close>.\<close>

definition read_text :: "filesystem \<Rightarrow> path \<Rightarrow> error + string" where
  "read_text fs p =
     (case read_bytes fs p of
        Inl e \<Rightarrow> Inl e
      | Inr bs \<Rightarrow> if utf8_valid bs then Inr (universal_newlines bs) else Inl UnicodeDecodeError)"

text \<open>
  \<^verbatim>\<open>open(p, "w").write(data)\<close>: a regular file is truncated and keeps its permissions; a
  missing one is created, which needs a directory the process may write and search; a
  directory, or a file the process may not write, raises.
\<close>

definition write_text :: "path \<Rightarrow> string \<Rightarrow> world \<Rightarrow> error + world" where
  "write_text p data w =
     (case resolve (files w) p of
        Inl e \<Rightarrow> Inl e
      | Inr cp \<Rightarrow>
          (case lookup (files w) cp of
             Some (Dir m) \<Rightarrow> Inl IsADirectoryError
           | Some (File r wr c) \<Rightarrow>
               if wr then Inr (emit (WriteFile p data) (w\<lparr>files := AList.update cp (File r wr data) (files w)\<rparr>))
               else Inl PermissionError
           | None \<Rightarrow>
               (case lookup (files w) (butlast cp) of
                  None \<Rightarrow> Inl FileNotFoundError
                | Some (File r wr c) \<Rightarrow> Inl NotADirectoryError
                | Some (Dir m) \<Rightarrow>
                    if owner_w m \<and> owner_x m then
                      Inr (emit (WriteFile p data) (w\<lparr>files := AList.update cp (File True True data) (files w)\<rparr>))
                    else Inl PermissionError)))"

text \<open>
  \<^verbatim>\<open>os.makedirs(p, exist_ok=True, mode=m)\<close> goes down the path and makes every directory that
  is missing, the last one with mode \<open>m\<close> and those before it with mode \<^verbatim>\<open>0o777\<close> (511).
  Making a directory needs a parent the process may write; a regular file on the way
  raises. The directories made before a failure stay.
\<close>

definition trailing :: "string list \<Rightarrow> bool" where
  "trailing cs = list_all (\<lambda>c. c = [] \<or> c = ''.'') cs"

fun mkdir_p :: "nat \<Rightarrow> filesystem \<Rightarrow> cpath \<Rightarrow> string list \<Rightarrow> error option \<times> filesystem" where
  "mkdir_p m fs cur [] = (None, fs)"
| "mkdir_p m fs cur (c # cs) =
     (case lookup fs cur of
        None \<Rightarrow> (Some FileNotFoundError, fs)
      | Some (File r w d) \<Rightarrow> (Some NotADirectoryError, fs)
      | Some (Dir m0) \<Rightarrow>
          if \<not> owner_x m0 then (Some PermissionError, fs)
          else if c = [] \<or> c = ''.'' then mkdir_p m fs cur cs
          else if c = ''..'' then mkdir_p m fs (butlast cur) cs
          else
            (case lookup fs (cur @ [c]) of
               Some (Dir m1) \<Rightarrow> mkdir_p m fs (cur @ [c]) cs
             | Some (File r w d) \<Rightarrow>
                 (Some (if trailing cs then FileExistsError else NotADirectoryError), fs)
             | None \<Rightarrow>
                 if owner_w m0 then
                   mkdir_p m (AList.update (cur @ [c]) (Dir (if trailing cs then m else 511)) fs) (cur @ [c]) cs
                 else (Some PermissionError, fs)))"

definition makedirs :: "path \<Rightarrow> nat \<Rightarrow> world \<Rightarrow> error option \<times> world" where
  "makedirs p m w =
     (if p = [] then (Some FileNotFoundError, w)
      else if CHR 0x00 \<in> set p then (Some ValueError, w)
      else
        (case mkdir_p m (files w) [] (split_path p) of
           (Some e, fs) \<Rightarrow> (Some e, w\<lparr>files := fs\<rparr>)
         | (None, fs) \<Rightarrow> (None, emit (MakeDirs p m) (w\<lparr>files := fs\<rparr>))))"

text \<open>
  \<^verbatim>\<open>os.listdir(d)\<close>: the names directly under a directory the process may read. A name is
  not empty, is neither \<^verbatim>\<open>.\<close> nor \<^verbatim>\<open>..\<close>, and has no slash and no NUL in it.
\<close>

definition valid_name :: "string \<Rightarrow> bool" where
  "valid_name n = (n \<noteq> [] \<and> n \<noteq> ''.'' \<and> n \<noteq> ''..'' \<and> CHR ''/'' \<notin> set n \<and> CHR 0x00 \<notin> set n)"

definition children :: "filesystem \<Rightarrow> cpath \<Rightarrow> string list" where
  "children fs cp =
     remdups (map last (filter (\<lambda>k. k \<noteq> [] \<and> butlast k = cp \<and> valid_name (last k)) (map fst fs)))"

definition listdir :: "filesystem \<Rightarrow> path \<Rightarrow> error + string list" where
  "listdir fs d =
     (case stat fs d of
        Inl e \<Rightarrow> Inl e
      | Inr (cp, File r w c) \<Rightarrow> Inl NotADirectoryError
      | Inr (cp, Dir m) \<Rightarrow> if owner_r m then Inr (children fs cp) else Inl PermissionError)"

subsection \<open>Library functions on strings and paths\<close>

text \<open>\<^verbatim>\<open>posixpath.join(a, b)\<close>.\<close>

definition path_join :: "path \<Rightarrow> path \<Rightarrow> path" where
  "path_join a b =
     (if prefix ''/'' b then b
      else if a = [] \<or> suffix ''/'' a then a @ b
      else a @ ''/'' @ b)"

text \<open>\<^verbatim>\<open>s.lstrip("/")\<close>.\<close>

definition lstrip_slash :: "string \<Rightarrow> string" where
  "lstrip_slash s = dropWhile (\<lambda>c. c = CHR ''/'') s"

text \<open>
  \<^verbatim>\<open>s.replace(old, new)\<close>: every non-overlapping occurrence, leftmost first; an empty
  \<open>old\<close> matches before every character and at the end.
\<close>

function replace_from :: "string \<Rightarrow> string \<Rightarrow> string \<Rightarrow> string" where
  "replace_from old new s =
     (if s = [] then []
      else if old \<noteq> [] \<and> prefix old s then new @ replace_from old new (drop (length old) s)
      else hd s # replace_from old new (tl s))"
  by pat_completeness auto
termination
  by (relation "measure (\<lambda>(old, new, s). length s)") auto

definition replace_str :: "string \<Rightarrow> string \<Rightarrow> string \<Rightarrow> string" where
  "replace_str old new s =
     (if old = [] then new @ concat (map (\<lambda>c. c # new) s) else replace_from old new s)"

text \<open>
  \<^verbatim>\<open>re.finditer(r'(src="(.+?\.js)")', s)\<close>. After \<^verbatim>\<open>src="\<close> the lazy \<^verbatim>\<open>.+?\<close> takes one
  character that is not a newline, then as few more as it must until \<^verbatim>\<open>.js"\<close> follows.
  \<open>dot_plus_lazy\<close> returns group 2 and the text after the match.
\<close>

fun dot_plus_lazy :: "string \<Rightarrow> string \<Rightarrow> (string \<times> string) option" where
  "dot_plus_lazy acc [] = None"
| "dot_plus_lazy acc (c # cs) =
     (if acc \<noteq> [] \<and> prefix ''.js\"'' (c # cs) then Some (acc @ ''.js'', drop 4 (c # cs))
      else if c = CHR 0x0A then None
      else dot_plus_lazy (acc @ [c]) cs)"

text \<open>A match at the head of \<open>s\<close>: group 1, group 2 and the text after the match.\<close>

definition match_at :: "string \<Rightarrow> (string \<times> string \<times> string) option" where
  "match_at s =
     (if prefix ''src=\"'' s then
        (case dot_plus_lazy [] (drop 5 s) of
           None \<Rightarrow> None
         | Some (g2, rest) \<Rightarrow> Some (''src=\"'' @ g2 @ ''\"'', g2, rest))
      else None)"

lemma dot_plus_lazy_shorter:
  "dot_plus_lazy acc s = Some (g2, rest) \<Longrightarrow> length rest < length s"
  by (induction acc s rule: dot_plus_lazy.induct) (auto split: if_splits)

lemma match_at_shorter:
  "match_at s = Some (g1, g2, rest) \<Longrightarrow> length rest < length s"
  by (auto simp: match_at_def split: if_splits option.splits dest!: dot_plus_lazy_shorter)

text \<open>The matches from left to right, none overlapping: (group 1, group 2).\<close>

function finditer :: "string \<Rightarrow> (string \<times> string) list" where
  "finditer s =
     (if s = [] then []
      else (case match_at s of
              Some (g1, g2, rest) \<Rightarrow> (g1, g2) # finditer rest
            | None \<Rightarrow> finditer (tl s)))"
  by pat_completeness auto
termination
  by (relation "measure length") (auto dest: match_at_shorter)

text \<open>\<^verbatim>\<open>base64.b64encode\<close> (RFC 4648, with padding).\<close>

definition b64_alphabet :: string where
  "b64_alphabet = ''ABCDEFGHIJKLMNOPQRSTUVWXYZabcdefghijklmnopqrstuvwxyz0123456789+/''"

definition b64_char :: "nat \<Rightarrow> char" where
  "b64_char n = b64_alphabet ! (n mod 64)"

fun b64encode :: "bytes \<Rightarrow> string" where
  "b64encode [] = []"
| "b64encode [a] =
     (let n = of_char a * 65536
      in [b64_char (n div 262144), b64_char (n div 4096), CHR ''='', CHR ''=''])"
| "b64encode [a, b] =
     (let n = of_char a * 65536 + of_char b * 256
      in [b64_char (n div 262144), b64_char (n div 4096), b64_char (n div 64), CHR ''=''])"
| "b64encode (a # b # c # rest) =
     (let n = of_char a * 65536 + of_char b * 256 + of_char c
      in [b64_char (n div 262144), b64_char (n div 4096), b64_char (n div 64), b64_char n]
         @ b64encode rest)"

subsection \<open>The module\<close>

definition STATIC_DIR :: "path \<Rightarrow> path" where
  "STATIC_DIR updir = path_join updir ''htdocs''"

definition TEMPLATES_DIR :: "path \<Rightarrow> path" where
  "TEMPLATES_DIR updir = path_join (STATIC_DIR updir) ''templates''"

definition COMPILED_DIR :: "path \<Rightarrow> path" where
  "COMPILED_DIR updir = path_join (STATIC_DIR updir) ''compiled''"

text \<open>\<^verbatim>\<open>file_to_sri(filepath)\<close>.\<close>

definition file_to_sri :: "(bytes \<Rightarrow> bytes) \<Rightarrow> filesystem \<Rightarrow> path \<Rightarrow> error + string" where
  "file_to_sri sha384 fs filepath =
     (case read_bytes fs filepath of
        Inl e \<Rightarrow> Inl e
      | Inr bs \<Rightarrow> Inr (''sha384-'' @ b64encode (sha384 bs)))"

text \<open>
  The loop of \<^verbatim>\<open>compile_html\<close> over the matches. The iterator runs over the template as it
  was read; \<open>master_template\<close> is the variable the loop rebinds.
\<close>

fun stamp_scripts ::
  "(bytes \<Rightarrow> bytes) \<Rightarrow> path \<Rightarrow> filesystem \<Rightarrow> (string \<times> string) list \<Rightarrow> string \<Rightarrow> error + string" where
  "stamp_scripts sha384 updir fs [] master_template = Inr master_template"
| "stamp_scripts sha384 updir fs ((group1, group2) # matches) master_template =
     (let script_name = lstrip_slash group2;
          script_path = path_join (STATIC_DIR updir) script_name
      in if isfile fs script_path then
           (case file_to_sri sha384 fs script_path of
              Inl e \<Rightarrow> Inl e
            | Inr sri \<Rightarrow>
                (let orig_src = group1;
                     new_src = orig_src @ '' integrity=\"'' @ sri @ ''\"''
                 in stamp_scripts sha384 updir fs matches (replace_str orig_src new_src master_template)))
         else stamp_scripts sha384 updir fs matches master_template)"

text \<open>The directory step: a log line and \<^verbatim>\<open>os.makedirs\<close> with mode \<^verbatim>\<open>0o700\<close> (448).\<close>

definition ensure_compiled_dir :: "path \<Rightarrow> world \<Rightarrow> error option \<times> world" where
  "ensure_compiled_dir updir w =
     (if \<not> isdir (files w) (COMPILED_DIR updir) then
        makedirs (COMPILED_DIR updir) 448
          (emit (LogLine (''Compiled HTML directory '' @ COMPILED_DIR updir
                           @ '' does not exist, will attempt to create it'')) w)
      else (None, w))"

text \<open>The names the loop over the fragments runs over; the list is built before the first write.\<close>

definition html_files :: "path \<Rightarrow> filesystem \<Rightarrow> error + string list" where
  "html_files updir fs =
     (case listdir fs (STATIC_DIR updir) of
        Inl e \<Rightarrow> Inl e
      | Inr names \<Rightarrow> Inr (filter (\<lambda>filename. suffix ''.html'' filename) names))"

text \<open>The loop over the fragments.\<close>

fun write_pages :: "path \<Rightarrow> string \<Rightarrow> string list \<Rightarrow> world \<Rightarrow> error option \<times> world" where
  "write_pages updir master_template [] w = (None, w)"
| "write_pages updir master_template (htmlfile # rest) w =
     (let w1 = emit (PrintLine (''Compiling '' @ htmlfile @ '' into output/'' @ htmlfile)) w
      in case read_text (files w1) (path_join (STATIC_DIR updir) htmlfile) of
           Inl e \<Rightarrow> (Some e, w1)
         | Inr htmldata \<Rightarrow>
             (let output = replace_str ''{contents}'' htmldata master_template
              in case write_text (path_join (COMPILED_DIR updir) htmlfile) output w1 of
                   Inl e \<Rightarrow> (Some e, w1)
                 | Inr w2 \<Rightarrow> write_pages updir master_template rest w2))"

definition compile_html :: "(bytes \<Rightarrow> bytes) \<Rightarrow> path \<Rightarrow> world \<Rightarrow> error option \<times> world" where
  "compile_html sha384 updir w =
     (case read_text (files w) (path_join (TEMPLATES_DIR updir) ''master.html'') of
        Inl e \<Rightarrow> (Some e, w)
      | Inr master_template \<Rightarrow>
          (case stamp_scripts sha384 updir (files w) (finditer master_template) master_template of
             Inl e \<Rightarrow> (Some e, w)
           | Inr stamped \<Rightarrow>
               (case ensure_compiled_dir updir w of
                  (Some e, w1) \<Rightarrow> (Some e, w1)
                | (None, w1) \<Rightarrow>
                    (case html_files updir (files w1) of
                       Inl e \<Rightarrow> (Some e, w1)
                     | Inr names \<Rightarrow> write_pages updir stamped names w1))))"
subsection \<open>Facts about paths and strings\<close>

declare finditer.simps [simp del] replace_from.simps [simp del]

lemma STATIC_DIR_nonempty: "STATIC_DIR updir \<noteq> []"
  by (simp add: STATIC_DIR_def path_join_def)

lemma STATIC_DIR_last: "last (STATIC_DIR updir) = CHR ''s''"
  by (simp add: STATIC_DIR_def path_join_def)

lemma suffix_slash_iff: "suffix ''/'' a \<longleftrightarrow> a \<noteq> [] \<and> last a = CHR ''/''"
  by (cases a rule: rev_cases) (auto simp: suffix_def)

lemma prefix_slash_iff: "prefix ''/'' b \<longleftrightarrow> b \<noteq> [] \<and> hd b = CHR ''/''"
  by (cases b) auto

lemma join_STATIC_DIR:
  "\<not> prefix ''/'' x \<Longrightarrow> path_join (STATIC_DIR updir) x = STATIC_DIR updir @ ''/'' @ x"
  by (simp add: path_join_def suffix_slash_iff STATIC_DIR_nonempty STATIC_DIR_last)

lemma COMPILED_DIR_eq: "COMPILED_DIR updir = STATIC_DIR updir @ ''/compiled''"
  by (simp add: COMPILED_DIR_def join_STATIC_DIR)

lemma TEMPLATES_DIR_eq: "TEMPLATES_DIR updir = STATIC_DIR updir @ ''/templates''"
  by (simp add: TEMPLATES_DIR_def join_STATIC_DIR)

lemma master_path_eq:
  "path_join (TEMPLATES_DIR updir) ''master.html'' = STATIC_DIR updir @ ''/templates/master.html''"
  by (simp add: path_join_def TEMPLATES_DIR_eq suffix_slash_iff)

lemma join_COMPILED_DIR:
  "\<not> prefix ''/'' x \<Longrightarrow> path_join (COMPILED_DIR updir) x = STATIC_DIR updir @ ''/compiled/'' @ x"
  by (simp add: path_join_def COMPILED_DIR_eq suffix_slash_iff)


lemma files_emit [simp]: "files (emit e w) = files w"
  by (simp add: emit_def)

lemma trace_emit [simp]: "trace (emit e w) = trace w @ [e]"
  by (simp add: emit_def)

lemma no_slash_not_prefix: "CHR ''/'' \<notin> set h \<Longrightarrow> \<not> prefix ''/'' h"
  by (cases h) auto

lemma no_early_js:
  "CHR 0x22 \<notin> set x \<Longrightarrow> x \<noteq> [] \<Longrightarrow> \<not> prefix ''.js\"'' (x @ ''.js\"'' @ rest)"
  apply (cases x, simp)
  subgoal for a x1
    apply (cases x1, simp)
    subgoal for b x2
      apply (cases x2, simp)
      subgoal for c x3
        by (cases x3) auto
      done
    done
  done

lemma dot_plus_lazy_sound:
  "dot_plus_lazy acc s = Some (g2, rest) \<Longrightarrow>
     \<exists>x. g2 = acc @ x @ ''.js'' \<and> s = x @ ''.js\"'' @ rest \<and> acc @ x \<noteq> [] \<and> CHR 0x0A \<notin> set x"
proof (induction acc s rule: dot_plus_lazy.induct)
  case (1 acc)
  then show ?case by simp
next
  case (2 acc c cs)
  show ?case
  proof (cases "acc \<noteq> [] \<and> prefix ''.js\"'' (c # cs)")
    case True
    with 2(2) have "g2 = acc @ ''.js''" "rest = drop 4 (c # cs)" by auto
    moreover from True have "c # cs = ''.js\"'' @ drop 4 (c # cs)"
      by (auto simp: prefix_def)
    ultimately show ?thesis using True by (intro exI [of _ "[]"]) auto
  next
    case False
    with 2(2) have nl: "c \<noteq> CHR 0x0A" and rec: "dot_plus_lazy (acc @ [c]) cs = Some (g2, rest)"
      by (auto split: if_splits)
    from 2(1) [OF False nl rec] obtain x where
      "g2 = (acc @ [c]) @ x @ ''.js''" "cs = x @ ''.js\"'' @ rest" "CHR 0x0A \<notin> set x"
      by blast
    with nl show ?thesis by (intro exI [of _ "c # x"]) auto
  qed
qed

lemma dot_plus_lazy_complete:
  "CHR 0x22 \<notin> set x \<Longrightarrow> CHR 0x0A \<notin> set x \<Longrightarrow> acc @ x \<noteq> [] \<Longrightarrow>
     dot_plus_lazy acc (x @ ''.js\"'' @ rest) = Some (acc @ x @ ''.js'', rest)"
proof (induction x arbitrary: acc)
  case Nil
  then show ?case by simp
next
  case (Cons c cs)
  have step: "dot_plus_lazy acc (c # zs) = dot_plus_lazy (acc @ [c]) zs"
    if "\<not> prefix ''.js\"'' (c # zs)" "c \<noteq> CHR 0x0A" for zs
    using that by (subst dot_plus_lazy.simps) (simp only: simp_thms if_False)
  have nl: "c \<noteq> CHR 0x0A"
    using Cons.prems(2) by auto
  have "(c # cs) @ ''.js\"'' @ rest = c # (cs @ ''.js\"'' @ rest)"
    by (rule append_Cons)
  moreover have "\<not> prefix ''.js\"'' ((c # cs) @ ''.js\"'' @ rest)"
    using Cons.prems(1) by (intro no_early_js) auto
  ultimately have np: "\<not> prefix ''.js\"'' (c # (cs @ ''.js\"'' @ rest))"
    by (rule subst)
  have "dot_plus_lazy acc ((c # cs) @ ''.js\"'' @ rest) = dot_plus_lazy (acc @ [c]) (cs @ ''.js\"'' @ rest)"
    using step [OF np nl] by (subst append_Cons)
  also have "\<dots> = Some ((acc @ [c]) @ cs @ ''.js'', rest)"
    using Cons.prems by (intro Cons.IH) auto
  finally show ?case by simp
qed

lemma match_at_sound:
  assumes "match_at s = Some (g1, g2, rest)"
  shows "s = g1 @ rest \<and> g1 = ''src=\"'' @ g2 @ ''\"'' \<and>
         (\<exists>x. x \<noteq> [] \<and> g2 = x @ ''.js'' \<and> CHR 0x0A \<notin> set x)"
proof -
  from assms have p: "prefix ''src=\"'' s" and
    d: "dot_plus_lazy [] (drop 5 s) = Some (g2, rest)" and g1: "g1 = ''src=\"'' @ g2 @ ''\"''"
    by (auto simp: match_at_def split: if_splits option.splits)
  from dot_plus_lazy_sound [OF d] obtain x where
    x: "g2 = x @ ''.js''" "drop 5 s = x @ ''.js\"'' @ rest" "x \<noteq> []" "CHR 0x0A \<notin> set x"
    by auto
  from p have "s = ''src=\"'' @ drop 5 s" by (auto simp: prefix_def)
  with x g1 show ?thesis by auto
qed

lemma match_at_complete:
  assumes "CHR 0x22 \<notin> set x" "CHR 0x0A \<notin> set x" "x \<noteq> []"
  shows "match_at (''src=\"'' @ x @ ''.js\"'' @ rest) = Some (''src=\"'' @ x @ ''.js\"'', x @ ''.js'', rest)"
  using dot_plus_lazy_complete [OF assms(1,2), of "[]" rest] assms(3)
  by (simp add: match_at_def)

lemma finditer_shape:
  "(g1, g2) \<in> set (finditer s) \<Longrightarrow>
     g1 = ''src=\"'' @ g2 @ ''\"'' \<and> (\<exists>x. x \<noteq> [] \<and> g2 = x @ ''.js'' \<and> CHR 0x0A \<notin> set x)"
proof (induction s rule: finditer.induct)
  case (1 s)
  show ?case
  proof (cases "s = []")
    case True
    with 1(3) show ?thesis by (simp add: finditer.simps)
  next
    case ne: False
    show ?thesis
    proof (cases "match_at s")
      case None
      with ne 1(3) have "(g1, g2) \<in> set (finditer (tl s))" by (simp add: finditer.simps [of s])
      with 1(1) [OF ne None] show ?thesis by blast
    next
      case (Some m)
      obtain a b rest where m: "m = (a, b, rest)" by (cases m)
      with ne Some 1(3) have "(g1, g2) = (a, b) \<or> (g1, g2) \<in> set (finditer rest)"
        by (simp add: finditer.simps [of s])
      then show ?thesis
      proof
        assume "(g1, g2) = (a, b)"
        with match_at_sound [of s a b rest] Some m show ?thesis by auto
      next
        assume "(g1, g2) \<in> set (finditer rest)"
        with 1(2) [OF ne Some [unfolded m]] show ?thesis by auto
      qed
    qed
  qed
qed

lemma lstrip_slash_replicate:
  "\<not> prefix ''/'' name \<Longrightarrow> lstrip_slash (replicate n (CHR ''/'') @ name) = name"
  by (induction n) (auto simp: lstrip_slash_def prefix_slash_iff dropWhile_eq_self_iff)


subsection \<open>Facts about the file system\<close>

lemma split_from_append:
  "split_from acc (a @ CHR ''/'' # b) = split_from acc a @ split_path b"
  by (induction a arbitrary: acc) (auto simp: split_path_def)

lemma split_path_append: "split_path (a @ CHR ''/'' # b) = split_path a @ split_path b"
  by (simp add: split_path_def split_from_append [unfolded split_path_def])

lemma split_from_name: "CHR ''/'' \<notin> set n \<Longrightarrow> split_from acc n = [acc @ n]"
  by (induction n arbitrary: acc) auto

lemma split_path_name: "CHR ''/'' \<notin> set n \<Longrightarrow> split_path n = [n]"
  by (simp add: split_path_def split_from_name)

lemma walk_append:
  "walk fs cur (xs @ ys) = (case walk fs cur xs of Inl e \<Rightarrow> Inl e | Inr c \<Rightarrow> walk fs c ys)"
  by (induction xs arbitrary: cur) (auto split: option.splits node.splits)

definition normal :: "string \<Rightarrow> bool" where
  "normal c = (c \<noteq> [] \<and> c \<noteq> ''.'' \<and> c \<noteq> ''..'')"

lemma walk_single:
  "normal n \<Longrightarrow> walk fs cur [n] =
     (case lookup fs cur of
        None \<Rightarrow> Inl FileNotFoundError
      | Some (File r w d) \<Rightarrow> Inl NotADirectoryError
      | Some (Dir m) \<Rightarrow> if owner_x m then Inr (cur @ [n]) else Inl PermissionError)"
  by (auto simp: normal_def split: option.splits node.splits)


definition dir_le :: "filesystem \<Rightarrow> filesystem \<Rightarrow> bool" where
  "dir_le fs fs' = (\<forall>k m. lookup fs k = Some (Dir m) \<longrightarrow> lookup fs' k = Some (Dir m))"

lemma dir_le_refl: "dir_le fs fs"
  by (simp add: dir_le_def)

lemma dir_le_trans: "dir_le a b \<Longrightarrow> dir_le b c \<Longrightarrow> dir_le a c"
  by (simp add: dir_le_def)

lemma walk_succ_Dir:
  "walk fs cur (c # cs) = Inr cp \<Longrightarrow> \<exists>m. lookup fs cur = Some (Dir m) \<and> owner_x m"
  by (auto split: option.splits node.splits if_splits)

lemma walk_mono:
  "walk fs cur cs = Inr cp \<Longrightarrow> dir_le fs fs' \<Longrightarrow> walk fs' cur cs = Inr cp"
proof (induction cs arbitrary: cur)
  case Nil
  then show ?case by simp
next
  case (Cons c cs)
  from walk_succ_Dir [OF Cons.prems(1)] obtain m where m: "lookup fs cur = Some (Dir m)" "owner_x m"
    by blast
  with Cons.prems(2) have m': "lookup fs' cur = Some (Dir m)"
    by (simp add: dir_le_def)
  show ?case
    using Cons.prems m m' Cons.IH by (auto split: if_splits)
qed

lemma lookup_update:
  "k \<noteq> [] \<Longrightarrow> lookup (AList.update k v fs) k' = (if k' = k then Some v else lookup fs k')"
  by (auto simp: lookup_def update_conv')

lemma lookup_root: "lookup fs [] = Some (Dir 365)"
  by (simp add: lookup_def)

definition SDok :: "path \<Rightarrow> filesystem \<Rightarrow> cpath \<Rightarrow> bool" where
  "SDok updir fs sd =
     (CHR 0x00 \<notin> set (STATIC_DIR updir) \<and> walk fs [] (split_path (STATIC_DIR updir)) = Inr sd \<and>
      (\<exists>m. lookup fs sd = Some (Dir m) \<and> owner_x m))"

lemma resolve_static:
  "resolve fs (STATIC_DIR updir @ CHR ''/'' # rest) =
     (if CHR 0x00 \<in> set (STATIC_DIR updir) \<or> CHR 0x00 \<in> set rest then Inl ValueError
      else case walk fs [] (split_path (STATIC_DIR updir)) of
             Inl e \<Rightarrow> Inl e
           | Inr sd \<Rightarrow> walk fs sd (split_path rest))"
  by (auto simp: resolve_def split_path_append walk_append)

lemma read_text_resolve:
  assumes "read_text fs p = Inr t"
  shows "\<exists>cp. resolve fs p = Inr cp"
proof -
  from assms have "\<exists>x. read_bytes fs p = Inr x"
    by (cases "read_bytes fs p") (simp_all add: read_text_def)
  then have "\<exists>x. stat fs p = Inr x"
    by (cases "stat fs p") (auto simp: read_bytes_def)
  then show ?thesis
    by (cases "resolve fs p") (auto simp: stat_def)
qed

lemma template_read_SDok:
  assumes "read_text fs (path_join (TEMPLATES_DIR updir) ''master.html'') = Inr t"
  shows "\<exists>sd. SDok updir fs sd"
proof -
  have sp: "split_path ''templates/master.html'' = [''templates'', ''master.html'']"
    by (simp add: split_path_def)
  from read_text_resolve [OF assms] obtain cp where
    "resolve fs (STATIC_DIR updir @ CHR ''/'' # ''templates/master.html'') = Inr cp"
    unfolding master_path_eq by auto
  then have r: "(if CHR 0x00 \<in> set (STATIC_DIR updir) \<or> CHR 0x00 \<in> set ''templates/master.html'' then Inl ValueError
      else case walk fs [] (split_path (STATIC_DIR updir)) of
             Inl e \<Rightarrow> Inl e
           | Inr sd \<Rightarrow> walk fs sd [''templates'', ''master.html'']) = Inr cp"
    unfolding resolve_static sp .
  then have n: "CHR 0x00 \<notin> set (STATIC_DIR updir)"
    by (auto split: if_splits)
  from r obtain sd where w: "walk fs [] (split_path (STATIC_DIR updir)) = Inr sd"
    and "walk fs sd [''templates'', ''master.html''] = Inr cp"
    by (cases "walk fs [] (split_path (STATIC_DIR updir))") (auto split: if_splits)
  from walk_succ_Dir [OF this(2)] n w show ?thesis
    unfolding SDok_def by blast
qed

lemma SDok_mono: "SDok updir fs sd \<Longrightarrow> dir_le fs fs' \<Longrightarrow> SDok updir fs' sd"
  by (auto simp: SDok_def dir_le_def dest: walk_mono [where fs' = fs'] simp: dir_le_def)

lemma SDok_unique: "SDok updir fs sd \<Longrightarrow> SDok updir fs sd' \<Longrightarrow> sd' = sd"
  by (simp add: SDok_def)

lemma valid_name_normal: "valid_name h \<Longrightarrow> normal h"
  by (simp add: valid_name_def normal_def)

lemma resolve_static_name:
  assumes "SDok updir fs sd" and "valid_name h"
  shows "resolve fs (path_join (STATIC_DIR updir) h) = Inr (sd @ [h])"
proof -
  have np: "\<not> prefix ''/'' h"
    using assms(2) no_slash_not_prefix [of h] by (simp add: valid_name_def)
  have sp: "split_path h = [h]"
    using assms(2) by (simp add: valid_name_def split_path_name)
  show ?thesis
    using assms
    by (auto simp: join_STATIC_DIR [OF np] resolve_static sp SDok_def
                   walk_single [OF valid_name_normal] valid_name_def)
qed

lemma resolve_compiled_dir:
  assumes "SDok updir fs sd"
  shows "resolve fs (COMPILED_DIR updir) = Inr (sd @ [''compiled''])"
proof -
  have sp: "split_path ''compiled'' = [''compiled'']"
    by (simp add: split_path_def)
  show ?thesis
    using assms
    by (auto simp: COMPILED_DIR_eq resolve_static SDok_def sp)
qed

lemma resolve_compiled_name:
  assumes "SDok updir fs sd" and "valid_name h"
  shows "resolve fs (path_join (COMPILED_DIR updir) h) =
     (case lookup fs (sd @ [''compiled'']) of
        None \<Rightarrow> Inl FileNotFoundError
      | Some (File r w d) \<Rightarrow> Inl NotADirectoryError
      | Some (Dir m) \<Rightarrow> if owner_x m then Inr (sd @ [''compiled'', h]) else Inl PermissionError)"
proof -
  have np: "\<not> prefix ''/'' h"
    using assms(2) no_slash_not_prefix [of h] by (simp add: valid_name_def)
  have sp: "split_path h = [h]"
    using assms(2) by (simp add: valid_name_def split_path_name)
  have n: "normal h" using assms(2) by (rule valid_name_normal)
  have pj: "path_join (COMPILED_DIR updir) h = STATIC_DIR updir @ CHR ''/'' # (''compiled'' @ CHR ''/'' # h)"
    by (simp add: join_COMPILED_DIR [OF np])
  have spc: "split_path (''compiled'' @ CHR ''/'' # h) = [''compiled'', h]"
    unfolding split_path_append sp by (simp add: split_path_def)
  have nul: "CHR 0x00 \<notin> set (''compiled'' @ CHR ''/'' # h)"
    using assms(2) by (simp add: valid_name_def)
  show ?thesis
    unfolding pj resolve_static spc
    using assms n nul
    by (auto simp: SDok_def normal_def split: option.splits node.splits)
qed

lemma mkdir_p_existing:
  "walk fs cur xs = Inr sd \<Longrightarrow> lookup fs sd = Some (Dir m0) \<Longrightarrow>
   mkdir_p m fs cur (xs @ ys) = mkdir_p m fs sd ys"
proof (induction xs arbitrary: cur)
  case Nil
  then show ?case by simp
next
  case (Cons c cs)
  from walk_succ_Dir [OF Cons.prems(1)] obtain mc where mc: "lookup fs cur = Some (Dir mc)" "owner_x mc"
    by blast
  show ?case
  proof (cases "c = [] \<or> c = ''.''")
    case True
    with Cons mc show ?thesis by auto
  next
    case False
    note nd = this
    show ?thesis
    proof (cases "c = ''..''")
      case True
      with Cons mc nd show ?thesis by auto
    next
      case False
      with nd mc Cons.prems(1) have w: "walk fs (cur @ [c]) cs = Inr sd"
        by auto
      have "\<exists>m1. lookup fs (cur @ [c]) = Some (Dir m1)"
      proof (cases cs)
        case Nil
        with w Cons.prems(2) show ?thesis by auto
      next
        case (Cons d ds)
        with w walk_succ_Dir [of fs "cur @ [c]" d ds sd] show ?thesis by auto
      qed
      then obtain m1 where "lookup fs (cur @ [c]) = Some (Dir m1)" ..
      with Cons.IH [OF w Cons.prems(2)] mc nd False show ?thesis
        by auto
    qed
  qed
qed

lemma isdir_compiled:
  assumes "SDok updir fs sd"
  shows "isdir fs (COMPILED_DIR updir) \<longleftrightarrow> (\<exists>m. lookup fs (sd @ [''compiled'']) = Some (Dir m))"
  by (auto simp: isdir_def stat_def resolve_compiled_dir [OF assms] split: option.splits node.splits)

lemma makedirs_compiled:
  assumes "SDok updir (files w) sd"
  shows "makedirs (COMPILED_DIR updir) m w =
     (case lookup (files w) (sd @ [''compiled'']) of
        Some (Dir m1) \<Rightarrow> (None, emit (MakeDirs (COMPILED_DIR updir) m) w)
      | Some (File r wr d) \<Rightarrow> (Some FileExistsError, w)
      | None \<Rightarrow>
          (case lookup (files w) sd of
             Some (Dir m0) \<Rightarrow>
               if owner_w m0 then
                 (None, emit (MakeDirs (COMPILED_DIR updir) m)
                          (w\<lparr>files := AList.update (sd @ [''compiled'']) (Dir m) (files w)\<rparr>))
               else (Some PermissionError, w)
           | _ \<Rightarrow> (Some PermissionError, w)))"
proof -
  from assms obtain m0 where sd: "walk (files w) [] (split_path (STATIC_DIR updir)) = Inr sd"
    and m0: "lookup (files w) sd = Some (Dir m0)" "owner_x m0"
    and nul: "CHR 0x00 \<notin> set (STATIC_DIR updir)"
    by (auto simp: SDok_def)
  have sp: "split_path (COMPILED_DIR updir) = split_path (STATIC_DIR updir) @ [''compiled'']"
    unfolding COMPILED_DIR_eq
    using split_path_append [of "STATIC_DIR updir" "''compiled''"] by (simp add: split_path_def)
  have ne: "COMPILED_DIR updir \<noteq> []" "CHR 0x00 \<notin> set (COMPILED_DIR updir)"
    using nul by (simp_all add: COMPILED_DIR_eq)
  have mk: "mkdir_p m (files w) [] (split_path (COMPILED_DIR updir)) = mkdir_p m (files w) sd [''compiled'']"
    unfolding sp using sd m0(1) by (rule mkdir_p_existing)
  show ?thesis
    unfolding makedirs_def mk using ne m0
    by (auto simp: trailing_def emit_def split: option.splits node.splits)
qed

lemma write_text_effect:
  assumes "write_text p data w = Inr w'"
  shows "\<exists>cp r. resolve (files w) p = Inr cp \<and> cp \<noteq> [] \<and>
           files w' = AList.update cp (File r True data) (files w) \<and>
           (\<nexists>m. lookup (files w) cp = Some (Dir m)) \<and>
           trace w' = trace w @ [WriteFile p data]"
proof -
  from assms obtain cp where cp: "resolve (files w) p = Inr cp"
    by (cases "resolve (files w) p") (auto simp: write_text_def)
  have ne: "cp \<noteq> []"
    using assms cp by (auto simp: write_text_def lookup_root)
  show ?thesis
    using assms cp ne
    by (auto simp: write_text_def emit_def split: option.splits node.splits if_splits)
qed

lemma dir_le_update_File:
  assumes "cp \<noteq> []" and "\<nexists>m. lookup fs cp = Some (Dir m)"
  shows "dir_le fs (AList.update cp (File r wr d) fs)" and "dir_le (AList.update cp (File r wr d) fs) fs"
  using assms by (auto simp: dir_le_def lookup_update)

lemma write_text_dir_le:
  assumes "write_text p data w = Inr w'"
  shows "dir_le (files w) (files w')" and "dir_le (files w') (files w)"
  using write_text_effect [OF assms] dir_le_update_File by auto


definition rd :: "filesystem \<Rightarrow> cpath \<Rightarrow> error + string" where
  "rd fs k =
     (case lookup fs k of
        None \<Rightarrow> Inl FileNotFoundError
      | Some (Dir m) \<Rightarrow> Inl IsADirectoryError
      | Some (File r w c) \<Rightarrow>
          if r then (if utf8_valid c then Inr (universal_newlines c) else Inl UnicodeDecodeError)
          else Inl PermissionError)"

lemma read_text_static:
  assumes "SDok updir fs sd" and "valid_name h"
  shows "read_text fs (path_join (STATIC_DIR updir) h) = rd fs (sd @ [h])"
  by (auto simp: read_text_def read_bytes_def stat_def rd_def resolve_static_name [OF assms]
           split: option.splits node.splits)

lemma write_text_compiled:
  assumes "SDok updir (files w) sd" and "valid_name h"
    and "write_text (path_join (COMPILED_DIR updir) h) data w = Inr w'"
  shows "\<exists>r mc. files w' = AList.update (sd @ [''compiled'', h]) (File r True data) (files w) \<and>
           (\<nexists>m. lookup (files w) (sd @ [''compiled'', h]) = Some (Dir m)) \<and>
           lookup (files w) (sd @ [''compiled'']) = Some (Dir mc)"
proof -
  from write_text_effect [OF assms(3)] obtain cp r where
    cp: "resolve (files w) (path_join (COMPILED_DIR updir) h) = Inr cp"
    and f: "files w' = AList.update cp (File r True data) (files w)"
    and nd: "\<nexists>m. lookup (files w) cp = Some (Dir m)"
    by blast
  from cp have "cp = sd @ [''compiled'', h] \<and> (\<exists>mc. lookup (files w) (sd @ [''compiled'']) = Some (Dir mc))"
    unfolding resolve_compiled_name [OF assms(1,2)]
    by (auto split: option.splits node.splits if_splits)
  with f nd show ?thesis by blast
qed


lemma children_update:
  assumes "butlast k \<noteq> d"
  shows "children (AList.update k v fs) d = children fs d"
  using assms by (simp add: children_def update_keys)

lemma write_pages_trace:
  "\<exists>es. trace (snd (write_pages updir t names w)) = trace w @ es"
proof (induction names arbitrary: w)
  case Nil
  then show ?case by simp
next
  case (Cons h names)
  let ?w1 = "emit (PrintLine (''Compiling '' @ h @ '' into output/'' @ h)) w"
  show ?case
  proof (cases "read_text (files w) (path_join (STATIC_DIR updir) h)")
    case (Inl e)
    then show ?thesis by (simp add: Let_def)
  next
    case rd: (Inr htmldata)
    let ?out = "replace_str ''{contents}'' htmldata t"
    show ?thesis
    proof (cases "write_text (path_join (COMPILED_DIR updir) h) ?out ?w1")
      case (Inl e)
      with rd show ?thesis by (simp add: Let_def)
    next
      case (Inr w2)
      from write_text_effect [OF Inr] have t2: "trace w2 = trace ?w1 @ [WriteFile (path_join (COMPILED_DIR updir) h) ?out]"
        by auto
      from Cons.IH [of w2] obtain es where "trace (snd (write_pages updir t names w2)) = trace w2 @ es" ..
      then show ?thesis
        using rd Inr t2 by (simp add: Let_def)
    qed
  qed
qed

lemma write_pages_dir_le:
  "dir_le (files w) (files (snd (write_pages updir t names w))) \<and>
   dir_le (files (snd (write_pages updir t names w))) (files w)"
proof (induction names arbitrary: w)
  case Nil
  then show ?case by (simp add: dir_le_refl)
next
  case (Cons h names)
  let ?w1 = "emit (PrintLine (''Compiling '' @ h @ '' into output/'' @ h)) w"
  show ?case
  proof (cases "read_text (files w) (path_join (STATIC_DIR updir) h)")
    case (Inl e)
    then show ?thesis by (simp add: Let_def dir_le_refl)
  next
    case rd: (Inr htmldata)
    let ?out = "replace_str ''{contents}'' htmldata t"
    show ?thesis
    proof (cases "write_text (path_join (COMPILED_DIR updir) h) ?out ?w1")
      case (Inl e)
      with rd show ?thesis by (simp add: Let_def dir_le_refl)
    next
      case (Inr w2)
      from write_text_dir_le [OF Inr] have "dir_le (files w) (files w2)" "dir_le (files w2) (files w)"
        by simp_all
      with Cons.IH [of w2] have
        "dir_le (files w) (files (snd (write_pages updir t names w2)))"
        "dir_le (files (snd (write_pages updir t names w2))) (files w)"
        by (blast intro: dir_le_trans)+
      then show ?thesis
        using rd Inr by (simp add: Let_def)
    qed
  qed
qed

lemma write_pages_frame:
  assumes "SDok updir (files w) sd" and "\<forall>h \<in> set names. valid_name h"
  shows "(\<forall>k. k \<notin> (\<lambda>h. sd @ [''compiled'', h]) ` set names \<longrightarrow>
            lookup (files (snd (write_pages updir t names w))) k = lookup (files w) k) \<and>
         (\<forall>d. d \<noteq> sd @ [''compiled''] \<longrightarrow>
            children (files (snd (write_pages updir t names w))) d = children (files w) d)"
  using assms
proof (induction names arbitrary: w)
  case Nil
  then show ?case by simp
next
  case (Cons h names)
  let ?w1 = "emit (PrintLine (''Compiling '' @ h @ '' into output/'' @ h)) w"
  show ?case
  proof (cases "read_text (files w) (path_join (STATIC_DIR updir) h)")
    case (Inl e)
    then show ?thesis by (simp add: Let_def)
  next
    case rd: (Inr htmldata)
    let ?out = "replace_str ''{contents}'' htmldata t"
    show ?thesis
    proof (cases "write_text (path_join (COMPILED_DIR updir) h) ?out ?w1")
      case (Inl e)
      with rd show ?thesis by (simp add: Let_def)
    next
      case (Inr w2)
      have ok1: "SDok updir (files ?w1) sd" using Cons.prems(1) by simp
      have vh: "valid_name h" using Cons.prems(2) by simp
      from write_text_compiled [OF ok1 vh Inr] obtain r where
        f: "files w2 = AList.update (sd @ [''compiled'', h]) (File r True ?out) (files w)"
        by auto
      have ok2: "SDok updir (files w2) sd"
        using Cons.prems(1) write_text_dir_le(1) [OF Inr] by (auto intro: SDok_mono)
      have ih: "(\<forall>k. k \<notin> (\<lambda>h. sd @ [''compiled'', h]) ` set names \<longrightarrow>
            lookup (files (snd (write_pages updir t names w2))) k = lookup (files w2) k) \<and>
         (\<forall>d. d \<noteq> sd @ [''compiled''] \<longrightarrow>
            children (files (snd (write_pages updir t names w2))) d = children (files w2) d)"
        using Cons.prems(2) by (intro Cons.IH [OF ok2]) simp
      have l: "lookup (files w2) k = lookup (files w) k" if "k \<noteq> sd @ [''compiled'', h]" for k
        using that by (simp add: f lookup_update)
      have c: "children (files w2) d = children (files w) d" if "d \<noteq> sd @ [''compiled'']" for d
      proof -
        have "butlast (sd @ [''compiled'', h]) = sd @ [''compiled'']"
          by (simp add: butlast_append)
        with that have "butlast (sd @ [''compiled'', h]) \<noteq> d" by simp
        then show ?thesis unfolding f by (rule children_update)
      qed
      have eq: "snd (write_pages updir t (h # names) w) = snd (write_pages updir t names w2)"
        using rd Inr by (simp add: Let_def)
      show ?thesis
        unfolding eq using ih l c by auto
    qed
  qed
qed

definition dir_log_line :: "path \<Rightarrow> event" where
  "dir_log_line updir = LogLine (''Compiled HTML directory '' @ COMPILED_DIR updir
                                  @ '' does not exist, will attempt to create it'')"

lemma compile_html_cases:
  obtains (template_error) e where
      "read_text (files w) (path_join (TEMPLATES_DIR updir) ''master.html'') = Inl e"
      "compile_html sha384 updir w = (Some e, w)"
  | (stamp_error) t e where
      "read_text (files w) (path_join (TEMPLATES_DIR updir) ''master.html'') = Inr t"
      "stamp_scripts sha384 updir (files w) (finditer t) t = Inl e"
      "compile_html sha384 updir w = (Some e, w)"
  | (dir_error) t stamped e w1 where
      "read_text (files w) (path_join (TEMPLATES_DIR updir) ''master.html'') = Inr t"
      "stamp_scripts sha384 updir (files w) (finditer t) t = Inr stamped"
      "ensure_compiled_dir updir w = (Some e, w1)"
      "compile_html sha384 updir w = (Some e, w1)"
  | (list_error) t stamped e w1 where
      "read_text (files w) (path_join (TEMPLATES_DIR updir) ''master.html'') = Inr t"
      "stamp_scripts sha384 updir (files w) (finditer t) t = Inr stamped"
      "ensure_compiled_dir updir w = (None, w1)"
      "html_files updir (files w1) = Inl e"
      "compile_html sha384 updir w = (Some e, w1)"
  | (pages) t stamped w1 names where
      "read_text (files w) (path_join (TEMPLATES_DIR updir) ''master.html'') = Inr t"
      "stamp_scripts sha384 updir (files w) (finditer t) t = Inr stamped"
      "ensure_compiled_dir updir w = (None, w1)"
      "html_files updir (files w1) = Inr names"
      "compile_html sha384 updir w = write_pages updir stamped names w1"
proof (cases "read_text (files w) (path_join (TEMPLATES_DIR updir) ''master.html'')")
  case (Inl e)
  then show ?thesis by (intro template_error [of e]) (simp_all add: compile_html_def)
next
  case t: (Inr t)
  show ?thesis
  proof (cases "stamp_scripts sha384 updir (files w) (finditer t) t")
    case (Inl e)
    with t show ?thesis by (intro stamp_error [of t e]) (simp_all add: compile_html_def)
  next
    case st: (Inr stamped)
    obtain r w1 where en: "ensure_compiled_dir updir w = (r, w1)"
      by (cases "ensure_compiled_dir updir w")
    show ?thesis
    proof (cases r)
      case (Some e)
      with t st en show ?thesis
        by (intro dir_error [of t stamped e w1]) (simp_all add: compile_html_def)
    next
      case None
      show ?thesis
      proof (cases "html_files updir (files w1)")
        case (Inl e)
        with t st en None show ?thesis
          by (intro list_error [of t stamped w1 e]) (simp_all add: compile_html_def)
      next
        case (Inr names)
        with t st en None show ?thesis
          by (intro pages [of t stamped w1 names]) (simp_all add: compile_html_def)
      qed
    qed
  qed
qed

lemma makedirs_trace:
  "trace (snd (makedirs p m w)) = trace w @ (if fst (makedirs p m w) = None then [MakeDirs p m] else [])"
  by (auto simp: makedirs_def emit_def split: prod.splits option.splits)

lemma ensure_compiled_dir_trace:
  "trace (snd (ensure_compiled_dir updir w)) =
     trace w @ (if isdir (files w) (COMPILED_DIR updir) then []
                else if fst (ensure_compiled_dir updir w) = None
                  then [dir_log_line updir, MakeDirs (COMPILED_DIR updir) 448]
                else [dir_log_line updir])"
  by (simp add: ensure_compiled_dir_def makedirs_trace dir_log_line_def)

lemma ensure_compiled_dir_files:
  assumes "SDok updir (files w) sd"
  shows "files (snd (ensure_compiled_dir updir w)) =
     (if \<not> isdir (files w) (COMPILED_DIR updir) \<and> fst (ensure_compiled_dir updir w) = None
      then AList.update (sd @ [''compiled'']) (Dir 448) (files w) else files w)"
    and "\<not> isdir (files w) (COMPILED_DIR updir) \<Longrightarrow> fst (ensure_compiled_dir updir w) = None \<Longrightarrow>
           lookup (files w) (sd @ [''compiled'']) = None"
proof -
  let ?w1 = "emit (LogLine (''Compiled HTML directory '' @ COMPILED_DIR updir
                           @ '' does not exist, will attempt to create it'')) w"
  have ok: "SDok updir (files ?w1) sd" using assms by simp
  show "files (snd (ensure_compiled_dir updir w)) =
     (if \<not> isdir (files w) (COMPILED_DIR updir) \<and> fst (ensure_compiled_dir updir w) = None
      then AList.update (sd @ [''compiled'']) (Dir 448) (files w) else files w)"
    unfolding ensure_compiled_dir_def makedirs_compiled [OF ok]
    using assms
    by (auto simp: isdir_compiled [OF assms] emit_def SDok_def split: option.splits node.splits)
  show "\<not> isdir (files w) (COMPILED_DIR updir) \<Longrightarrow> fst (ensure_compiled_dir updir w) = None \<Longrightarrow>
           lookup (files w) (sd @ [''compiled'']) = None"
    unfolding ensure_compiled_dir_def makedirs_compiled [OF ok]
    by (auto simp: isdir_compiled [OF assms] emit_def split: option.splits node.splits if_splits)
qed

lemma isdir_iff:
  "isdir fs p \<longleftrightarrow> (\<exists>cp m. resolve fs p = Inr cp \<and> lookup fs cp = Some (Dir m))"
proof (cases "resolve fs p")
  case (Inl e)
  then show ?thesis by (simp add: isdir_def stat_def)
next
  case (Inr cp)
  show ?thesis
  proof (cases "lookup fs cp")
    case None
    with Inr show ?thesis by (simp add: isdir_def stat_def)
  next
    case (Some n)
    with Inr show ?thesis by (cases n) (simp_all add: isdir_def stat_def)
  qed
qed

lemma resolve_mono:
  assumes "resolve fs p = Inr cp" and "dir_le fs fs'"
  shows "resolve fs' p = Inr cp"
proof -
  from assms(1) have a: "p \<noteq> []" "CHR 0x00 \<notin> set p" "walk fs [] (split_path p) = Inr cp"
    by (auto simp: resolve_def split: if_splits)
  from walk_mono [OF a(3) assms(2)] a(1,2) show ?thesis
    by (simp add: resolve_def)
qed

lemma isdir_mono:
  assumes "isdir fs p" and "dir_le fs fs'"
  shows "isdir fs' p"
proof -
  from assms(1) obtain cp m where r: "resolve fs p = Inr cp" and l: "lookup fs cp = Some (Dir m)"
    unfolding isdir_iff by blast
  from l assms(2) have "lookup fs' cp = Some (Dir m)"
    by (simp add: dir_le_def)
  with resolve_mono [OF r assms(2)] show ?thesis unfolding isdir_iff by blast
qed


lemma dir_le_update_new:
  "k \<noteq> [] \<Longrightarrow> lookup fs k = None \<Longrightarrow> dir_le fs (AList.update k v fs)"
  by (auto simp: dir_le_def lookup_update)

lemma stat_compiled:
  assumes "SDok updir fs sd" and "lookup fs (sd @ [''compiled'']) = Some n"
  shows "stat fs (COMPILED_DIR updir) = Inr (sd @ [''compiled''], n)"
  using assms(2) by (simp add: stat_def resolve_compiled_dir [OF assms(1)])

lemma resolve_static_dir:
  assumes "SDok updir fs sd"
  shows "resolve fs (STATIC_DIR updir) = Inr sd"
  using assms by (simp add: resolve_def SDok_def STATIC_DIR_nonempty)

lemma html_files_eq:
  assumes "SDok updir fs sd"
  shows "html_files updir fs =
     (case lookup fs sd of
        Some (Dir m) \<Rightarrow>
          if owner_r m then Inr (filter (\<lambda>filename. suffix ''.html'' filename) (children fs sd))
          else Inl PermissionError
      | _ \<Rightarrow> Inl PermissionError)"
  using assms
  by (auto simp: html_files_def listdir_def stat_def resolve_static_dir [OF assms] SDok_def
           split: option.splits node.splits)

lemma html_files_props:
  assumes "html_files updir fs = Inr names"
  shows "distinct names" and "\<forall>h \<in> set names. valid_name h \<and> suffix ''.html'' h"
proof -
  from assms obtain cp where n: "names = filter (\<lambda>filename. suffix ''.html'' filename) (children fs cp)"
    by (auto simp: html_files_def listdir_def split: sum.splits prod.splits node.splits if_splits)
  show "distinct names" unfolding n by (simp add: children_def)
  show "\<forall>h \<in> set names. valid_name h \<and> suffix ''.html'' h"
    unfolding n by (auto simp: children_def)
qed

lemma filter_remdups_snoc:
  "\<not> Q c \<Longrightarrow> filter Q (remdups (xs @ [c])) = filter Q (remdups xs)"
  by (induction xs) auto

lemma html_children_mkdir:
  "filter (\<lambda>filename. suffix ''.html'' filename) (children (AList.update (sd @ [''compiled'']) v fs) sd) =
   filter (\<lambda>filename. suffix ''.html'' filename) (children fs sd)"
proof (cases "sd @ [''compiled''] \<in> set (map fst fs)")
  case True
  then show ?thesis by (simp add: children_def update_keys)
next
  case False
  have v: "valid_name ''compiled''" by (simp add: valid_name_def)
  have ns: "\<not> suffix ''.html'' ''compiled''" by (simp add: suffix_to_prefix)
  from False v have "children (AList.update (sd @ [''compiled'']) v fs) sd =
      remdups (map last (filter (\<lambda>k. k \<noteq> [] \<and> butlast k = sd \<and> valid_name (last k)) (map fst fs)) @ [''compiled''])"
    by (simp add: children_def update_keys)
  then show ?thesis
    using filter_remdups_snoc [of "\<lambda>filename. suffix ''.html'' filename" "''compiled''", OF ns]
    by (simp add: children_def)
qed

lemma html_files_ensure:
  assumes "SDok updir (files w) sd" and "fst (ensure_compiled_dir updir w) = None"
  shows "html_files updir (files (snd (ensure_compiled_dir updir w))) = html_files updir (files w)"
    and "SDok updir (files (snd (ensure_compiled_dir updir w))) sd"
    and "\<forall>h. suffix ''.html'' h \<longrightarrow>
           lookup (files (snd (ensure_compiled_dir updir w))) (sd @ [h]) = lookup (files w) (sd @ [h])"
proof -
  let ?w1 = "snd (ensure_compiled_dir updir w)"
  have "html_files updir (files ?w1) = html_files updir (files w) \<and> SDok updir (files ?w1) sd \<and>
        (\<forall>h. suffix ''.html'' h \<longrightarrow> lookup (files ?w1) (sd @ [h]) = lookup (files w) (sd @ [h]))"
  proof (cases "isdir (files w) (COMPILED_DIR updir)")
    case True
    then have "files ?w1 = files w"
      by (simp add: ensure_compiled_dir_files(1) [OF assms(1)])
    with assms(1) show ?thesis by simp
  next
    case False
    with assms(2) have f: "files ?w1 = AList.update (sd @ [''compiled'']) (Dir 448) (files w)"
      by (simp add: ensure_compiled_dir_files(1) [OF assms(1)])
    from ensure_compiled_dir_files(2) [OF assms(1) False assms(2)]
    have "dir_le (files w) (AList.update (sd @ [''compiled'']) (Dir 448) (files w))"
      by (intro dir_le_update_new) simp_all
    from SDok_mono [OF assms(1) this] have ok: "SDok updir (files ?w1) sd"
      unfolding f .
    have l: "lookup (files ?w1) sd = lookup (files w) sd"
      unfolding f by (simp add: lookup_update)
    have "html_files updir (files ?w1) = html_files updir (files w)"
      unfolding html_files_eq [OF assms(1)] html_files_eq [OF ok] l
      unfolding f html_children_mkdir ..
    moreover have "\<forall>h. suffix ''.html'' h \<longrightarrow> lookup (files ?w1) (sd @ [h]) = lookup (files w) (sd @ [h])"
      unfolding f by (auto simp: lookup_update suffix_to_prefix)
    ultimately show ?thesis using ok by blast
  qed
  then show "html_files updir (files ?w1) = html_files updir (files w)"
    and "SDok updir (files ?w1) sd"
    and "\<forall>h. suffix ''.html'' h \<longrightarrow> lookup (files ?w1) (sd @ [h]) = lookup (files w) (sd @ [h])"
    by blast+
qed

lemma write_text_compiled_dir:
  assumes "SDok updir (files w) sd" and "valid_name h"
    and "write_text (path_join (COMPILED_DIR updir) h) data w = Inr w'"
  shows "\<exists>mc. lookup (files w) (sd @ [''compiled'']) = Some (Dir mc) \<and> owner_x mc"
proof -
  from write_text_effect [OF assms(3)] obtain cp where
    "resolve (files w) (path_join (COMPILED_DIR updir) h) = Inr cp"
    by blast
  then show ?thesis
    unfolding resolve_compiled_name [OF assms(1,2)]
    by (auto split: option.splits node.splits if_splits)
qed

lemma rd_cong: "lookup fs' k = lookup fs k \<Longrightarrow> rd fs' k = rd fs k"
  by (simp add: rd_def)

lemma write_pages_content:
  assumes "SDok updir (files w) sd" and "\<forall>h \<in> set names. valid_name h" and "distinct names"
    and "fst (write_pages updir t names w) = None" and "h \<in> set names"
  shows "\<exists>data r mc. rd (files w) (sd @ [h]) = Inr data \<and>
           lookup (files (snd (write_pages updir t names w))) (sd @ [''compiled'', h]) =
             Some (File r True (replace_str ''{contents}'' data t)) \<and>
           lookup (files w) (sd @ [''compiled'']) = Some (Dir mc) \<and> owner_x mc"
  using assms
proof (induction names arbitrary: w)
  case Nil
  then show ?case by simp
next
  case (Cons h0 names)
  let ?w1 = "emit (PrintLine (''Compiling '' @ h0 @ '' into output/'' @ h0)) w"
  have ok1: "SDok updir (files ?w1) sd" using Cons.prems(1) by simp
  have v0: "valid_name h0" using Cons.prems(2) by simp
  from Cons.prems(4) obtain data0 where
    rd0: "read_text (files w) (path_join (STATIC_DIR updir) h0) = Inr data0"
    by (cases "read_text (files w) (path_join (STATIC_DIR updir) h0)") (simp_all add: Let_def)
  let ?out = "replace_str ''{contents}'' data0 t"
  from Cons.prems(4) rd0 obtain w2 where
    wr0: "write_text (path_join (COMPILED_DIR updir) h0) ?out ?w1 = Inr w2"
    by (cases "write_text (path_join (COMPILED_DIR updir) h0) ?out ?w1") (simp_all add: Let_def)
  have eq: "write_pages updir t (h0 # names) w = write_pages updir t names w2"
    using rd0 wr0 by (simp add: Let_def)
  from write_text_compiled [OF ok1 v0 wr0] obtain r where
    f: "files w2 = AList.update (sd @ [''compiled'', h0]) (File r True ?out) (files w)"
    by auto
  from write_text_compiled_dir [OF ok1 v0 wr0] obtain mc where
    mc: "lookup (files w) (sd @ [''compiled'']) = Some (Dir mc)" "owner_x mc"
    by auto
  have ok2: "SDok updir (files w2) sd"
    using SDok_mono [OF ok1 write_text_dir_le(1) [OF wr0]] .
  have vs: "\<forall>h \<in> set names. valid_name h" using Cons.prems(2) by simp
  show ?case
  proof (cases "h = h0")
    case True
    have "sd @ [''compiled'', h0] \<notin> (\<lambda>h. sd @ [''compiled'', h]) ` set names"
      using Cons.prems(3) by auto
    with write_pages_frame [OF ok2 vs, of t]
    have "lookup (files (snd (write_pages updir t names w2))) (sd @ [''compiled'', h0]) =
          lookup (files w2) (sd @ [''compiled'', h0])"
      by blast
    also have "\<dots> = Some (File r True ?out)"
      by (simp add: f lookup_update)
    finally have l: "lookup (files (snd (write_pages updir t (h0 # names) w))) (sd @ [''compiled'', h0]) =
          Some (File r True ?out)"
      unfolding eq .
    have "rd (files w) (sd @ [h0]) = Inr data0"
      using rd0 unfolding read_text_static [OF Cons.prems(1) v0] .
    with l mc True show ?thesis by blast
  next
    case False
    with Cons.prems(5) have hin: "h \<in> set names" by simp
    from Cons.prems(3) have d: "distinct names" by simp
    from Cons.prems(4) have n: "fst (write_pages updir t names w2) = None"
      unfolding eq .
    from Cons.IH [OF ok2 vs d n hin] obtain data r' where
      a: "rd (files w2) (sd @ [h]) = Inr data"
      and b: "lookup (files (snd (write_pages updir t names w2))) (sd @ [''compiled'', h]) =
             Some (File r' True (replace_str ''{contents}'' data t))"
      by blast
    have "lookup (files w2) (sd @ [h]) = lookup (files w) (sd @ [h])"
      by (simp add: f lookup_update)
    from rd_cong [OF this] a have "rd (files w) (sd @ [h]) = Inr data" by simp
    with b mc show ?thesis unfolding eq by blast
  qed
qed


















subsection \<open>Facts about \<open>replace_from\<close>\<close>

lemma replace_from_Nil: "replace_from g n [] = []"
  by (simp add: replace_from.simps)

lemma replace_from_Cons:
  "replace_from g n (c # s) =
     (if g \<noteq> [] \<and> prefix g (c # s) then n @ replace_from g n (drop (length g) (c # s))
      else c # replace_from g n s)"
  by (subst replace_from.simps) simp

lemma replace_from_hit: "g \<noteq> [] \<Longrightarrow> replace_from g n (g @ s) = n @ replace_from g n s"
  by (subst replace_from.simps) simp

lemma replace_from_miss:
  "\<not> prefix g (c # s) \<Longrightarrow> replace_from g n (c # s) = c # replace_from g n s"
  by (simp add: replace_from_Cons)

lemma src_quote_alignment:
  "CHR 0x22 \<notin> set v \<Longrightarrow> prefix (''src=\"'' @ g') (v @ CHR 0x22 # rest) \<Longrightarrow>
     v = ''src='' \<and> prefix g' rest"
  apply (cases v, simp)
  subgoal for a v1
    apply (cases v1, simp)
    subgoal for b v2
      apply (cases v2, simp)
      subgoal for c v3
        apply (cases v3, simp)
        subgoal for d v4
          by (cases v4) auto
        done
      done
    done
  done

lemma replace_from_skip_token:
  assumes "CHR 0x22 \<notin> set u" and "\<not> (suffix ''src='' u \<and> prefix g' rest)"
  shows "replace_from (''src=\"'' @ g') n (u @ CHR 0x22 # rest) =
         u @ CHR 0x22 # replace_from (''src=\"'' @ g') n rest"
  using assms
proof (induction u)
  case Nil
  then show ?case by (simp add: replace_from_Cons)
next
  case (Cons c u)
  have "\<not> prefix (''src=\"'' @ g') ((c # u) @ CHR 0x22 # rest)"
  proof
    assume "prefix (''src=\"'' @ g') ((c # u) @ CHR 0x22 # rest)"
    from src_quote_alignment [OF Cons.prems(1) this] Cons.prems(2) show False
      by (simp add: suffix_def)
  qed
  then have "replace_from (''src=\"'' @ g') n ((c # u) @ CHR 0x22 # rest) =
             c # replace_from (''src=\"'' @ g') n (u @ CHR 0x22 # rest)"
    by (simp add: replace_from_miss del: prefix_Cons)
  moreover have "\<not> (suffix ''src='' u \<and> prefix g' rest)"
    using Cons.prems(2) by (auto simp: suffix_Cons)
  ultimately show ?case
    using Cons.IH Cons.prems(1) by simp
qed


lemma b64_char_alphabet: "b64_char n \<in> set b64_alphabet"
proof -
  have "length b64_alphabet = 64" by (simp add: b64_alphabet_def)
  then have "n mod 64 < length b64_alphabet" by simp
  then show ?thesis unfolding b64_char_def by (rule nth_mem)
qed

lemma b64encode_alphabet:
  "c \<in> set (b64encode d) \<Longrightarrow> c \<in> set b64_alphabet \<or> c = CHR ''=''"
  by (induction d rule: b64encode.induct) (auto simp: Let_def b64_char_alphabet)

lemma b64encode_no_quote [simp]: "CHR 0x22 \<notin> set (b64encode d)"
  using b64encode_alphabet [of "CHR 0x22" d] by (auto simp: b64_alphabet_def)

lemma b64encode_no_brace [simp]: "CHR ''{'' \<notin> set (b64encode d)"
  using b64encode_alphabet [of "CHR ''{''" d] by (auto simp: b64_alphabet_def)

lemma replace_from_skip:
  "old \<noteq> [] \<Longrightarrow> hd old \<notin> set u \<Longrightarrow> replace_from old new (u @ s) = u @ replace_from old new s"
proof (induction u)
  case Nil
  then show ?case by simp
next
  case (Cons c u)
  from Cons.prems have "\<not> prefix old (c # u @ s)"
    by (cases old) auto
  then have "replace_from old new (c # u @ s) = c # replace_from old new (u @ s)"
    by (subst replace_from.simps) simp
  with Cons show ?case by simp
qed

lemma replace_contents_skip_b64:
  "replace_from ''{contents}'' new (b64encode d @ s) = b64encode d @ replace_from ''{contents}'' new s"
  by (rule replace_from_skip) simp_all


lemma replace_src_skip_b64:
  "\<not> prefix g' rest \<Longrightarrow>
   replace_from (CHR ''s'' # CHR ''r'' # CHR ''c'' # CHR ''='' # CHR 0x22 # g') n (b64encode d @ CHR 0x22 # rest) =
   b64encode d @ CHR 0x22 # replace_from (CHR ''s'' # CHR ''r'' # CHR ''c'' # CHR ''='' # CHR 0x22 # g') n rest"
  using replace_from_skip_token [of "b64encode d" g' rest n] by simp

subsection \<open>Evaluation on concrete worlds\<close>

lemma finditer_Nil: "finditer [] = []"
  by (simp add: finditer.simps)

lemma finditer_Cons:
  "finditer (c # s) =
     (case match_at (c # s) of Some (g1, g2, rest) \<Rightarrow> (g1, g2) # finditer rest | None \<Rightarrow> finditer s)"
  by (subst finditer.simps) (simp split: option.splits)

lemmas model_defs =
  compile_html_def read_text_def read_bytes_def stat_def resolve_def split_path_def lookup_def
  write_text_def makedirs_def isfile_def isdir_def trailing_def cont_def
  owner_r_def owner_w_def owner_x_def
  ensure_compiled_dir_def html_files_def listdir_def children_def valid_name_def
  STATIC_DIR_def TEMPLATES_DIR_def COMPILED_DIR_def path_join_def lstrip_slash_def
  file_to_sri_def replace_str_def match_at_def emit_def Let_def suffix_to_prefix
  finditer_Nil finditer_Cons replace_from_Nil replace_from_Cons

subsection \<open>Example worlds\<close>

text \<open>A template without scripts and one fragment; the compiled directory does not exist yet.\<close>

definition fs_plain :: filesystem where
  "fs_plain =
     [([''srv''], Dir 493),
      ([''srv'', ''htdocs''], Dir 493),
      ([''srv'', ''htdocs'', ''templates''], Dir 493),
      ([''srv'', ''htdocs'', ''templates'', ''master.html''], File True True ''<h1>portal</h1>{contents}''),
      ([''srv'', ''htdocs'', ''index.html''], File True True ''<p>hi</p>'')]"

lemma compile_plain:
  "compile_html sha384 ''/srv'' \<lparr>files = fs_plain, trace = []\<rparr> =
     (None,
      \<lparr>files = fs_plain @
          [([''srv'', ''htdocs'', ''compiled''], Dir 448),
           ([''srv'', ''htdocs'', ''compiled'', ''index.html''], File True True ''<h1>portal</h1><p>hi</p>'')],
       trace =
         [LogLine ''Compiled HTML directory /srv/htdocs/compiled does not exist, will attempt to create it'',
          MakeDirs ''/srv/htdocs/compiled'' 448,
          PrintLine ''Compiling index.html into output/index.html'',
          WriteFile ''/srv/htdocs/compiled/index.html'' ''<h1>portal</h1><p>hi</p>'']\<rparr>)"
  by (simp add: model_defs fs_plain_def)



text \<open>A template with one script referenced by an absolute-style path; the script exists.\<close>

definition tpl_app :: string where
  "tpl_app = ''<script src=\"/app.js\"></script>{contents}''"

definition fs_app :: filesystem where
  "fs_app =
     [([''srv''], Dir 493),
      ([''srv'', ''htdocs''], Dir 493),
      ([''srv'', ''htdocs'', ''templates''], Dir 493),
      ([''srv'', ''htdocs'', ''templates'', ''master.html''], File True True tpl_app),
      ([''srv'', ''htdocs'', ''app.js''], File True True ''alert(1)''),
      ([''srv'', ''htdocs'', ''index.html''], File True True ''<p>hi</p>'')]"

lemma finditer_tpl_app: "finditer tpl_app = [(''src=\"/app.js\"'', ''/app.js'')]"
  by (simp add: model_defs tpl_app_def)





text \<open>Two fragments; the compiled directory exists and holds an old page.\<close>

definition fs_two :: filesystem where
  "fs_two =
     [([''srv''], Dir 493),
      ([''srv'', ''htdocs''], Dir 493),
      ([''srv'', ''htdocs'', ''templates''], Dir 493),
      ([''srv'', ''htdocs'', ''templates'', ''master.html''], File True True ''<h1>portal</h1>{contents}''),
      ([''srv'', ''htdocs'', ''a.html''], File True True ''<p>a</p>''),
      ([''srv'', ''htdocs'', ''b.html''], File True True ''<p>b</p>''),
      ([''srv'', ''htdocs'', ''compiled''], Dir 448),
      ([''srv'', ''htdocs'', ''compiled'', ''a.html''], File True True ''old'')]"

lemma compile_two:
  "compile_html sha384 ''/srv'' \<lparr>files = fs_two, trace = []\<rparr> =
     (None,
      \<lparr>files =
         [([''srv''], Dir 493),
          ([''srv'', ''htdocs''], Dir 493),
          ([''srv'', ''htdocs'', ''templates''], Dir 493),
          ([''srv'', ''htdocs'', ''templates'', ''master.html''], File True True ''<h1>portal</h1>{contents}''),
          ([''srv'', ''htdocs'', ''a.html''], File True True ''<p>a</p>''),
          ([''srv'', ''htdocs'', ''b.html''], File True True ''<p>b</p>''),
          ([''srv'', ''htdocs'', ''compiled''], Dir 448),
          ([''srv'', ''htdocs'', ''compiled'', ''a.html''], File True True ''<h1>portal</h1><p>a</p>''),
          ([''srv'', ''htdocs'', ''compiled'', ''b.html''], File True True ''<h1>portal</h1><p>b</p>'')],
       trace =
         [PrintLine ''Compiling a.html into output/a.html'',
          WriteFile ''/srv/htdocs/compiled/a.html'' ''<h1>portal</h1><p>a</p>'',
          PrintLine ''Compiling b.html into output/b.html'',
          WriteFile ''/srv/htdocs/compiled/b.html'' ''<h1>portal</h1><p>b</p>'']\<rparr>)"
  by (simp add: model_defs fs_two_def)

text \<open>A fragment with a Windows line ending.\<close>

definition fs_crlf :: filesystem where
  "fs_crlf =
     [([''srv''], Dir 493),
      ([''srv'', ''htdocs''], Dir 493),
      ([''srv'', ''htdocs'', ''templates''], Dir 493),
      ([''srv'', ''htdocs'', ''templates'', ''master.html''], File True True ''<h1>portal</h1>{contents}''),
      ([''srv'', ''htdocs'', ''index.html''], File True True (''<p>a'' @ [CHR 0x0D, CHR 0x0A] @ ''b</p>''))]"






text \<open>The same script referenced twice.\<close>

definition tpl_twice :: string where
  "tpl_twice = ''<script src=\"app.js\"></script><script src=\"app.js\"></script>{contents}''"

definition fs_twice :: filesystem where
  "fs_twice =
     [([''srv''], Dir 493),
      ([''srv'', ''htdocs''], Dir 493),
      ([''srv'', ''htdocs'', ''templates''], Dir 493),
      ([''srv'', ''htdocs'', ''templates'', ''master.html''], File True True tpl_twice),
      ([''srv'', ''htdocs'', ''app.js''], File True True ''alert(1)''),
      ([''srv'', ''htdocs'', ''index.html''], File True True ''<p>hi</p>'')]"

lemma finditer_tpl_twice:
  "finditer tpl_twice = [(''src=\"app.js\"'', ''app.js''), (''src=\"app.js\"'', ''app.js'')]"
  by (simp add: model_defs tpl_twice_def)

section \<open>The claims\<close>




text \<open>
  Claim C8. Every page write of \<open>compile_html\<close> comes after the directory step: a
  \<open>WriteFile\<close> event of the run is preceded, in the run, by the \<open>MakeDirs\<close> event of the
  compiled directory with mode \<^verbatim>\<open>0o700\<close> (448), unless the directory was there when the run
  began. When the run ends without an error the directory exists, and it has mode 448 when
  the run created it.
\<close>

theorem compiled_dir_before_page_writes:
  "(trace (snd (compile_html sha384 updir w)) = trace w @ pre @ WriteFile p data # post \<longrightarrow>
      isdir (files w) (COMPILED_DIR updir) \<or> MakeDirs (COMPILED_DIR updir) 448 \<in> set pre) \<and>
   (fst (compile_html sha384 updir w) = None \<longrightarrow>
      isdir (files (snd (compile_html sha384 updir w))) (COMPILED_DIR updir) \<and>
      (\<not> isdir (files w) (COMPILED_DIR updir) \<longrightarrow>
         (\<exists>cp. stat (files (snd (compile_html sha384 updir w))) (COMPILED_DIR updir) = Inr (cp, Dir 448))))"
proof (cases rule: compile_html_cases [of w updir sha384])
  case (template_error e)
  then show ?thesis by simp
next
  case (stamp_error t e)
  then show ?thesis by simp
next
  case (dir_error t stamped e w1)
  from ensure_compiled_dir_trace [of updir w] dir_error(3)
  have "trace w1 = trace w \<or> trace w1 = trace w @ [dir_log_line updir]"
    by (simp split: if_splits)
  with dir_error(4) show ?thesis
    by (auto simp: append_eq_Cons_conv Cons_eq_append_conv dir_log_line_def)
next
  case (list_error t stamped e w1)
  from ensure_compiled_dir_trace [of updir w] list_error(3)
  have "trace w1 = trace w @ (if isdir (files w) (COMPILED_DIR updir) then []
                              else [dir_log_line updir, MakeDirs (COMPILED_DIR updir) 448])"
    by simp
  with list_error(5) show ?thesis
    by (auto simp: append_eq_Cons_conv Cons_eq_append_conv dir_log_line_def split: if_splits)
next
  case (pages t stamped w1 names)
  let ?R = "write_pages updir stamped names w1"
  from template_read_SDok [OF pages(1)] obtain sd where sd: "SDok updir (files w) sd" ..
  obtain es where es: "trace (snd ?R) = trace w1 @ es"
    using write_pages_trace by blast
  have le: "dir_le (files w1) (files (snd ?R))"
    using write_pages_dir_le by blast
  from ensure_compiled_dir_trace [of updir w] pages(3)
  have tr: "trace w1 = trace w @ (if isdir (files w) (COMPILED_DIR updir) then []
                              else [dir_log_line updir, MakeDirs (COMPILED_DIR updir) 448])"
    by simp
  from ensure_compiled_dir_files [OF sd] pages(3)
  have fl: "files w1 = (if \<not> isdir (files w) (COMPILED_DIR updir)
                        then AList.update (sd @ [''compiled'']) (Dir 448) (files w) else files w)"
    and nn: "\<not> isdir (files w) (COMPILED_DIR updir) \<Longrightarrow> lookup (files w) (sd @ [''compiled'']) = None"
    by simp_all
  show ?thesis
  proof (cases "isdir (files w) (COMPILED_DIR updir)")
    case True
    with fl have "isdir (files w1) (COMPILED_DIR updir)" by simp
    from isdir_mono [OF this le] have "isdir (files (snd ?R)) (COMPILED_DIR updir)" .
    with True pages(5) show ?thesis by simp
  next
    case False
    with fl have f1: "files w1 = AList.update (sd @ [''compiled'']) (Dir 448) (files w)" by simp
    have "dir_le (files w) (files w1)"
      unfolding f1 using nn [OF False] by (intro dir_le_update_new) simp_all
    with sd have sd1: "SDok updir (files w1) sd" by (rule SDok_mono)
    from SDok_mono [OF sd1 le] have sd2: "SDok updir (files (snd ?R)) sd" .
    have "lookup (files w1) (sd @ [''compiled'']) = Some (Dir 448)"
      by (simp add: f1 lookup_update)
    with le have "lookup (files (snd ?R)) (sd @ [''compiled'']) = Some (Dir 448)"
      by (simp add: dir_le_def)
    from stat_compiled [OF sd2 this]
    have st: "stat (files (snd ?R)) (COMPILED_DIR updir) = Inr (sd @ [''compiled''], Dir 448)" .
    then have id: "isdir (files (snd ?R)) (COMPILED_DIR updir)"
      by (simp add: isdir_def)
    have "MakeDirs (COMPILED_DIR updir) 448 \<in> set pre"
      if "trace (snd ?R) = trace w @ pre @ WriteFile p data # post"
    proof -
      from that es tr False
      have "[dir_log_line updir, MakeDirs (COMPILED_DIR updir) 448] @ es = pre @ WriteFile p data # post"
        by simp
      then show ?thesis
        by (auto simp: append_eq_append_conv2 append_eq_Cons_conv Cons_eq_append_conv dir_log_line_def)
    qed
    with st id pages(5) show ?thesis by auto
  qed
qed

theorem compiled_dir_before_page_writes_witness:
  "\<forall>sha384.
     trace (snd (compile_html sha384 ''/srv'' \<lparr>files = fs_plain, trace = []\<rparr>)) =
       [] @ [LogLine ''Compiled HTML directory /srv/htdocs/compiled does not exist, will attempt to create it'',
             MakeDirs ''/srv/htdocs/compiled'' 448,
             PrintLine ''Compiling index.html into output/index.html'']
          @ WriteFile ''/srv/htdocs/compiled/index.html'' ''<h1>portal</h1><p>hi</p>'' # [] \<and>
     \<not> isdir fs_plain (COMPILED_DIR ''/srv'') \<and>
     MakeDirs (COMPILED_DIR ''/srv'') 448 \<in>
       set [LogLine ''Compiled HTML directory /srv/htdocs/compiled does not exist, will attempt to create it'',
            MakeDirs ''/srv/htdocs/compiled'' 448,
            PrintLine ''Compiling index.html into output/index.html''] \<and>
     fst (compile_html sha384 ''/srv'' \<lparr>files = fs_plain, trace = []\<rparr>) = None \<and>
     isdir (files (snd (compile_html sha384 ''/srv'' \<lparr>files = fs_plain, trace = []\<rparr>))) (COMPILED_DIR ''/srv'') \<and>
     stat (files (snd (compile_html sha384 ''/srv'' \<lparr>files = fs_plain, trace = []\<rparr>))) (COMPILED_DIR ''/srv'') =
       Inr ([''srv'', ''htdocs'', ''compiled''], Dir 448)"
proof
  fix sha384
  have nd: "\<not> isdir fs_plain (COMPILED_DIR ''/srv'')"
    by (simp add: model_defs fs_plain_def)
  have cd: "COMPILED_DIR ''/srv'' = ''/srv/htdocs/compiled''"
    by (simp add: model_defs)
  have st: "stat (files (snd (compile_html sha384 ''/srv'' \<lparr>files = fs_plain, trace = []\<rparr>))) (COMPILED_DIR ''/srv'') =
       Inr ([''srv'', ''htdocs'', ''compiled''], Dir 448)"
    unfolding compile_plain by (simp add: model_defs fs_plain_def)
  show "trace (snd (compile_html sha384 ''/srv'' \<lparr>files = fs_plain, trace = []\<rparr>)) =
       [] @ [LogLine ''Compiled HTML directory /srv/htdocs/compiled does not exist, will attempt to create it'',
             MakeDirs ''/srv/htdocs/compiled'' 448,
             PrintLine ''Compiling index.html into output/index.html'']
          @ WriteFile ''/srv/htdocs/compiled/index.html'' ''<h1>portal</h1><p>hi</p>'' # [] \<and>
     \<not> isdir fs_plain (COMPILED_DIR ''/srv'') \<and>
     MakeDirs (COMPILED_DIR ''/srv'') 448 \<in>
       set [LogLine ''Compiled HTML directory /srv/htdocs/compiled does not exist, will attempt to create it'',
            MakeDirs ''/srv/htdocs/compiled'' 448,
            PrintLine ''Compiling index.html into output/index.html''] \<and>
     fst (compile_html sha384 ''/srv'' \<lparr>files = fs_plain, trace = []\<rparr>) = None \<and>
     isdir (files (snd (compile_html sha384 ''/srv'' \<lparr>files = fs_plain, trace = []\<rparr>))) (COMPILED_DIR ''/srv'') \<and>
     stat (files (snd (compile_html sha384 ''/srv'' \<lparr>files = fs_plain, trace = []\<rparr>))) (COMPILED_DIR ''/srv'') =
       Inr ([''srv'', ''htdocs'', ''compiled''], Dir 448)"
    using nd st
      compiled_dir_before_page_writes [of sha384 "''/srv''" "\<lparr>files = fs_plain, trace = []\<rparr>"
        "[LogLine ''Compiled HTML directory /srv/htdocs/compiled does not exist, will attempt to create it'',
          MakeDirs ''/srv/htdocs/compiled'' 448,
          PrintLine ''Compiling index.html into output/index.html'']"
        "''/srv/htdocs/compiled/index.html''" "''<h1>portal</h1><p>hi</p>''" "[]"]
    by (simp add: compile_plain cd)
qed


text \<open>
  Claim C10. A matched reference whose path begins with \<open>n\<close> slashes, followed by a
  remainder \<open>name\<close> that does not begin with a slash, is resolved to the file
  \<open>STATIC_DIR/name\<close>: all leading slashes are stripped and the remainder is joined to the
  static root. The text that is searched for and rewritten is the matched text itself, with the
  slashes kept, and the attribute is appended to it.
\<close>

theorem leading_slashes_resolve_under_static_root:
  assumes "(group1, group2) \<in> set (finditer t)"
    and "group2 = replicate n (CHR ''/'') @ name" and "\<not> prefix ''/'' name"
  shows "group1 = ''src=\"'' @ replicate n (CHR ''/'') @ name @ ''\"'' \<and> name \<noteq> [] \<and>
     stamp_scripts sha384 updir fs ((group1, group2) # matches) master_template =
       (if isfile fs (STATIC_DIR updir @ ''/'' @ name) then
          (case file_to_sri sha384 fs (STATIC_DIR updir @ ''/'' @ name) of
             Inl e \<Rightarrow> Inl e
           | Inr sri \<Rightarrow>
               stamp_scripts sha384 updir fs matches
                 (replace_str group1 (group1 @ '' integrity=\"'' @ sri @ ''\"'') master_template))
        else stamp_scripts sha384 updir fs matches master_template)"
proof -
  from finditer_shape [OF assms(1)] obtain x where
    g1: "group1 = ''src=\"'' @ group2 @ ''\"''" and x: "x \<noteq> []" "group2 = x @ ''.js''"
    by blast
  have ne: "name \<noteq> []"
  proof
    assume "name = []"
    then have "replicate n (CHR ''/'') = x @ ''.js''"
      unfolding x(2) [symmetric] assms(2) by simp
    then have "CHR ''s'' \<in> set (replicate n (CHR ''/''))"
      by simp
    then show False by (simp split: if_splits)
  qed
  have ls: "lstrip_slash group2 = name"
    unfolding assms(2) using assms(3) by (rule lstrip_slash_replicate)
  have pj: "path_join (STATIC_DIR updir) name = STATIC_DIR updir @ ''/'' @ name"
    using assms(3) by (rule join_STATIC_DIR)
  have "group1 = ''src=\"'' @ replicate n (CHR ''/'') @ name @ ''\"''"
    unfolding g1 assms(2) by simp
  moreover have "stamp_scripts sha384 updir fs ((group1, group2) # matches) master_template =
       (if isfile fs (STATIC_DIR updir @ ''/'' @ name) then
          (case file_to_sri sha384 fs (STATIC_DIR updir @ ''/'' @ name) of
             Inl e \<Rightarrow> Inl e
           | Inr sri \<Rightarrow>
               stamp_scripts sha384 updir fs matches
                 (replace_str group1 (group1 @ '' integrity=\"'' @ sri @ ''\"'') master_template))
        else stamp_scripts sha384 updir fs matches master_template)"
    by (simp only: stamp_scripts.simps Let_def ls pj)
  ultimately show ?thesis
    using ne by blast
qed


theorem leading_slashes_resolve_under_static_root_witness:
  "\<forall>sha384.
     (''src=\"/app.js\"'', ''/app.js'') \<in> set (finditer tpl_app) \<and>
     ''/app.js'' = replicate 1 (CHR ''/'') @ ''app.js'' \<and>
     \<not> prefix ''/'' ''app.js'' \<and>
     isfile fs_app (STATIC_DIR ''/srv'' @ ''/'' @ ''app.js'') \<and>
     file_to_sri sha384 fs_app (STATIC_DIR ''/srv'' @ ''/'' @ ''app.js'') =
       Inr (''sha384-'' @ b64encode (sha384 ''alert(1)'')) \<and>
     stamp_scripts sha384 ''/srv'' fs_app [(''src=\"/app.js\"'', ''/app.js'')] tpl_app =
       Inr (''<script src=\"/app.js\" integrity=\"sha384-'' @ b64encode (sha384 ''alert(1)'')
            @ ''\"></script>{contents}'')"
proof
  fix sha384
  have m: "(''src=\"/app.js\"'', ''/app.js'') \<in> set (finditer tpl_app)"
    by (simp add: finditer_tpl_app)
  have eq: "''/app.js'' = replicate 1 (CHR ''/'') @ ''app.js''"
    by simp
  have np: "\<not> prefix ''/'' ''app.js''"
    by simp
  have f: "isfile fs_app (STATIC_DIR ''/srv'' @ ''/'' @ ''app.js'')"
    by (simp add: model_defs fs_app_def)
  have h: "file_to_sri sha384 fs_app (STATIC_DIR ''/srv'' @ ''/'' @ ''app.js'') =
       Inr (''sha384-'' @ b64encode (sha384 ''alert(1)''))"
    by (simp add: model_defs fs_app_def)
  have r: "replace_str ''src=\"/app.js\"''
       (''src=\"/app.js\"'' @ '' integrity=\"'' @ (''sha384-'' @ b64encode (sha384 ''alert(1)'')) @ ''\"'') tpl_app =
     ''<script src=\"/app.js\" integrity=\"sha384-'' @ b64encode (sha384 ''alert(1)'')
            @ ''\"></script>{contents}''"
    by (simp add: model_defs tpl_app_def)
  have s: "stamp_scripts sha384 ''/srv'' fs_app [(''src=\"/app.js\"'', ''/app.js'')] tpl_app =
       Inr (''<script src=\"/app.js\" integrity=\"sha384-'' @ b64encode (sha384 ''alert(1)'')
            @ ''\"></script>{contents}'')"
    using leading_slashes_resolve_under_static_root
      [OF m eq np, of sha384 "''/srv''" fs_app "[]" tpl_app, THEN conjunct2, THEN conjunct2]
    by (simp only: f h if_True sum.case stamp_scripts.simps r)
  from m eq np f h s
  show "(''src=\"/app.js\"'', ''/app.js'') \<in> set (finditer tpl_app) \<and>
     ''/app.js'' = replicate 1 (CHR ''/'') @ ''app.js'' \<and>
     \<not> prefix ''/'' ''app.js'' \<and>
     isfile fs_app (STATIC_DIR ''/srv'' @ ''/'' @ ''app.js'') \<and>
     file_to_sri sha384 fs_app (STATIC_DIR ''/srv'' @ ''/'' @ ''app.js'') =
       Inr (''sha384-'' @ b64encode (sha384 ''alert(1)'')) \<and>
     stamp_scripts sha384 ''/srv'' fs_app [(''src=\"/app.js\"'', ''/app.js'')] tpl_app =
       Inr (''<script src=\"/app.js\" integrity=\"sha384-'' @ b64encode (sha384 ''alert(1)'')
            @ ''\"></script>{contents}'')"
    by (intro conjI)
qed








text \<open>
  Claim C5. When \<open>compile_html\<close> ends without an error, every name that ends in
  \<^verbatim>\<open>.html\<close> directly under the static directory has a regular file of that name in the
  compiled directory, whatever was there before, and its content is the stamped template
  with every \<^verbatim>\<open>{contents}\<close> replaced by the text of that fragment and of no other. The text
  of the fragment is what reading it in text mode gives: its bytes with \<^verbatim>\<open>\r\n\<close> and \<^verbatim>\<open>\r\<close>
  turned into \<^verbatim>\<open>\n\<close>, not the bytes themselves.
\<close>

theorem compiled_page_is_template_with_fragment:
  assumes "compile_html sha384 updir w = (None, w')"
    and "html_files updir (files w) = Inr names" and "h \<in> set names"
  shows "\<exists>t stamped htmldata cp r wr.
           read_text (files w) (path_join (TEMPLATES_DIR updir) ''master.html'') = Inr t \<and>
           stamp_scripts sha384 updir (files w) (finditer t) t = Inr stamped \<and>
           read_text (files w) (path_join (STATIC_DIR updir) h) = Inr htmldata \<and>
           stat (files w') (path_join (COMPILED_DIR updir) h) =
             Inr (cp, File r wr (replace_str ''{contents}'' htmldata stamped))"
proof (cases rule: compile_html_cases [of w updir sha384])
  case (template_error e)
  with assms(1) show ?thesis by simp
next
  case (stamp_error t e)
  with assms(1) show ?thesis by simp
next
  case (dir_error t stamped e w1)
  with assms(1) show ?thesis by simp
next
  case (list_error t stamped e w1)
  with assms(1) show ?thesis by simp
next
  case (pages t stamped w1 names1)
  from template_read_SDok [OF pages(1)] obtain sd where sd: "SDok updir (files w) sd" ..
  from pages(3) have en: "fst (ensure_compiled_dir updir w) = None" and w1: "snd (ensure_compiled_dir updir w) = w1"
    by simp_all
  from html_files_ensure [OF sd en] have
    hf: "html_files updir (files w1) = html_files updir (files w)"
    and sd1: "SDok updir (files w1) sd"
    and lk: "\<forall>h. suffix ''.html'' h \<longrightarrow> lookup (files w1) (sd @ [h]) = lookup (files w) (sd @ [h])"
    unfolding w1 by blast+
  from hf pages(4) assms(2) have nm: "names1 = names" by simp
  from html_files_props [OF assms(2)] assms(3) have
    d: "distinct names" and v: "\<forall>h \<in> set names. valid_name h" and vh: "valid_name h" and sh: "suffix ''.html'' h"
    by auto
  let ?R = "write_pages updir stamped names w1"
  from pages(5) assms(1) nm have R: "?R = (None, w')" by simp
  then have n: "fst ?R = None" and s: "snd ?R = w'" by simp_all
  from write_pages_content [OF sd1 v d n assms(3)] obtain data r mc where
    a: "rd (files w1) (sd @ [h]) = Inr data"
    and b: "lookup (files w') (sd @ [''compiled'', h]) = Some (File r True (replace_str ''{contents}'' data stamped))"
    and c: "lookup (files w1) (sd @ [''compiled'']) = Some (Dir mc)" "owner_x mc"
    unfolding s by blast
  from lk sh have "lookup (files w1) (sd @ [h]) = lookup (files w) (sd @ [h])" by simp
  from rd_cong [OF this] a have "rd (files w) (sd @ [h]) = Inr data" by simp
  then have rdh: "read_text (files w) (path_join (STATIC_DIR updir) h) = Inr data"
    unfolding read_text_static [OF sd vh] .
  have le: "dir_le (files w1) (files w')"
    using write_pages_dir_le [of w1 updir stamped names] unfolding s by blast
  from SDok_mono [OF sd1 le] have sd': "SDok updir (files w') sd" .
  from c(1) le have c': "lookup (files w') (sd @ [''compiled'']) = Some (Dir mc)"
    by (simp add: dir_le_def)
  have "stat (files w') (path_join (COMPILED_DIR updir) h) =
          Inr (sd @ [''compiled'', h], File r True (replace_str ''{contents}'' data stamped))"
    unfolding stat_def resolve_compiled_name [OF sd' vh] using c' c(2) b by simp
  with pages(1,2) rdh show ?thesis by blast
qed

theorem compiled_page_is_template_with_fragment_witness:
  "\<forall>sha384.
     compile_html sha384 ''/srv'' \<lparr>files = fs_two, trace = []\<rparr> =
       (None, snd (compile_html sha384 ''/srv'' \<lparr>files = fs_two, trace = []\<rparr>)) \<and>
     html_files ''/srv'' fs_two = Inr [''a.html'', ''b.html''] \<and>
     read_text fs_two (path_join (TEMPLATES_DIR ''/srv'') ''master.html'') = Inr ''<h1>portal</h1>{contents}'' \<and>
     stamp_scripts sha384 ''/srv'' fs_two (finditer ''<h1>portal</h1>{contents}'') ''<h1>portal</h1>{contents}'' =
       Inr ''<h1>portal</h1>{contents}'' \<and>
     read_text fs_two (path_join (STATIC_DIR ''/srv'') ''a.html'') = Inr ''<p>a</p>'' \<and>
     stat (files (snd (compile_html sha384 ''/srv'' \<lparr>files = fs_two, trace = []\<rparr>)))
          (path_join (COMPILED_DIR ''/srv'') ''a.html'') =
       Inr ([''srv'', ''htdocs'', ''compiled'', ''a.html''],
            File True True (replace_str ''{contents}'' ''<p>a</p>'' ''<h1>portal</h1>{contents}'')) \<and>
     read_bytes (files (snd (compile_html sha384 ''/srv'' \<lparr>files = fs_two, trace = []\<rparr>)))
          ''/srv/htdocs/compiled/a.html'' = Inr ''<h1>portal</h1><p>a</p>'' \<and>
     read_bytes (files (snd (compile_html sha384 ''/srv'' \<lparr>files = fs_two, trace = []\<rparr>)))
          ''/srv/htdocs/compiled/b.html'' = Inr ''<h1>portal</h1><p>b</p>''"
proof
  fix sha384
  let ?w = "\<lparr>files = fs_two, trace = []\<rparr>"
  have a: "compile_html sha384 ''/srv'' ?w = (None, snd (compile_html sha384 ''/srv'' ?w))"
    by (simp add: compile_two)
  have b: "html_files ''/srv'' (files ?w) = Inr [''a.html'', ''b.html'']"
    by (simp add: model_defs fs_two_def)
  have c: "read_text fs_two (path_join (TEMPLATES_DIR ''/srv'') ''master.html'') = Inr ''<h1>portal</h1>{contents}''"
    by (simp add: model_defs fs_two_def)
  have d: "stamp_scripts sha384 ''/srv'' fs_two (finditer ''<h1>portal</h1>{contents}'') ''<h1>portal</h1>{contents}'' =
       Inr ''<h1>portal</h1>{contents}''"
    by (simp add: model_defs)
  have e: "read_text fs_two (path_join (STATIC_DIR ''/srv'') ''a.html'') = Inr ''<p>a</p>''"
    by (simp add: model_defs fs_two_def)
  have f: "stat (files (snd (compile_html sha384 ''/srv'' ?w))) (path_join (COMPILED_DIR ''/srv'') ''a.html'') =
       Inr ([''srv'', ''htdocs'', ''compiled'', ''a.html''],
            File True True (replace_str ''{contents}'' ''<p>a</p>'' ''<h1>portal</h1>{contents}''))"
    unfolding compile_two by (simp add: model_defs)
  have g: "read_bytes (files (snd (compile_html sha384 ''/srv'' ?w))) ''/srv/htdocs/compiled/a.html'' =
       Inr ''<h1>portal</h1><p>a</p>''"
    unfolding compile_two by (simp add: model_defs)
  have h: "read_bytes (files (snd (compile_html sha384 ''/srv'' ?w))) ''/srv/htdocs/compiled/b.html'' =
       Inr ''<h1>portal</h1><p>b</p>''"
    unfolding compile_two by (simp add: model_defs)
  from a b c d e f g h
    compiled_page_is_template_with_fragment
      [of sha384 "''/srv''" ?w "snd (compile_html sha384 ''/srv'' ?w)" "[''a.html'', ''b.html'']" "''a.html''"]
  show "compile_html sha384 ''/srv'' ?w = (None, snd (compile_html sha384 ''/srv'' ?w)) \<and>
     html_files ''/srv'' fs_two = Inr [''a.html'', ''b.html''] \<and>
     read_text fs_two (path_join (TEMPLATES_DIR ''/srv'') ''master.html'') = Inr ''<h1>portal</h1>{contents}'' \<and>
     stamp_scripts sha384 ''/srv'' fs_two (finditer ''<h1>portal</h1>{contents}'') ''<h1>portal</h1>{contents}'' =
       Inr ''<h1>portal</h1>{contents}'' \<and>
     read_text fs_two (path_join (STATIC_DIR ''/srv'') ''a.html'') = Inr ''<p>a</p>'' \<and>
     stat (files (snd (compile_html sha384 ''/srv'' ?w))) (path_join (COMPILED_DIR ''/srv'') ''a.html'') =
       Inr ([''srv'', ''htdocs'', ''compiled'', ''a.html''],
            File True True (replace_str ''{contents}'' ''<p>a</p>'' ''<h1>portal</h1>{contents}'')) \<and>
     read_bytes (files (snd (compile_html sha384 ''/srv'' ?w))) ''/srv/htdocs/compiled/a.html'' =
       Inr ''<h1>portal</h1><p>a</p>'' \<and>
     read_bytes (files (snd (compile_html sha384 ''/srv'' ?w))) ''/srv/htdocs/compiled/b.html'' =
       Inr ''<h1>portal</h1><p>b</p>''"
    by simp
qed

theorem crlf_fragment_is_not_copied_bytewise:
  "\<forall>sha384.
     read_bytes fs_crlf ''/srv/htdocs/index.html'' = Inr (''<p>a'' @ [CHR 0x0D, CHR 0x0A] @ ''b</p>'') \<and>
     fst (compile_html sha384 ''/srv'' \<lparr>files = fs_crlf, trace = []\<rparr>) = None \<and>
     read_bytes (files (snd (compile_html sha384 ''/srv'' \<lparr>files = fs_crlf, trace = []\<rparr>)))
        ''/srv/htdocs/compiled/index.html'' = Inr (''<h1>portal</h1><p>a'' @ [CHR 0x0A] @ ''b</p>'') \<and>
     replace_str ''{contents}'' (''<p>a'' @ [CHR 0x0D, CHR 0x0A] @ ''b</p>'') ''<h1>portal</h1>{contents}'' =
       ''<h1>portal</h1><p>a'' @ [CHR 0x0D, CHR 0x0A] @ ''b</p>''"
  by (simp add: model_defs fs_crlf_def)




text \<open>
  Claim C1. The code does not do what the claim says. The loop runs once for every match,
  and each run replaces every occurrence of the matched text; the stamped text still
  begins with the matched text, so that the second run for the same text stamps both
  occurrences again. With the reference \<^verbatim>\<open>src="app.js"\<close> twice in the template, each
  occurrence ends with two integrity attributes.
\<close>

theorem duplicate_reference_is_stamped_twice:
  "finditer tpl_twice = [(''src=\"app.js\"'', ''app.js''), (''src=\"app.js\"'', ''app.js'')] \<and>
   isfile fs_twice (path_join (STATIC_DIR ''/srv'') ''app.js'') \<and>
   stamp_scripts sha384 ''/srv'' fs_twice (finditer tpl_twice) tpl_twice =
     Inr (''<script src=\"app.js\" integrity=\"sha384-'' @ b64encode (sha384 ''alert(1)'')
          @ ''\" integrity=\"sha384-'' @ b64encode (sha384 ''alert(1)'')
          @ ''\"></script><script src=\"app.js\" integrity=\"sha384-'' @ b64encode (sha384 ''alert(1)'')
          @ ''\" integrity=\"sha384-'' @ b64encode (sha384 ''alert(1)'')
          @ ''\"></script>{contents}'') \<and>
   read_bytes (files (snd (compile_html sha384 ''/srv'' \<lparr>files = fs_twice, trace = []\<rparr>)))
      ''/srv/htdocs/compiled/index.html'' =
     Inr (''<script src=\"app.js\" integrity=\"sha384-'' @ b64encode (sha384 ''alert(1)'')
          @ ''\" integrity=\"sha384-'' @ b64encode (sha384 ''alert(1)'')
          @ ''\"></script><script src=\"app.js\" integrity=\"sha384-'' @ b64encode (sha384 ''alert(1)'')
          @ ''\" integrity=\"sha384-'' @ b64encode (sha384 ''alert(1)'')
          @ ''\"></script><p>hi</p>'')"
proof -
  have a: "isfile fs_twice (path_join (STATIC_DIR ''/srv'') ''app.js'')"
    by (simp add: model_defs fs_twice_def)
  have b: "stamp_scripts sha384 ''/srv'' fs_twice (finditer tpl_twice) tpl_twice =
     Inr (''<script src=\"app.js\" integrity=\"sha384-'' @ b64encode (sha384 ''alert(1)'')
          @ ''\" integrity=\"sha384-'' @ b64encode (sha384 ''alert(1)'')
          @ ''\"></script><script src=\"app.js\" integrity=\"sha384-'' @ b64encode (sha384 ''alert(1)'')
          @ ''\" integrity=\"sha384-'' @ b64encode (sha384 ''alert(1)'')
          @ ''\"></script>{contents}'')"
    unfolding finditer_tpl_twice
    by (simp add: model_defs fs_twice_def tpl_twice_def replace_src_skip_b64)
  have c: "read_bytes (files (snd (compile_html sha384 ''/srv'' \<lparr>files = fs_twice, trace = []\<rparr>)))
      ''/srv/htdocs/compiled/index.html'' =
     Inr (''<script src=\"app.js\" integrity=\"sha384-'' @ b64encode (sha384 ''alert(1)'')
          @ ''\" integrity=\"sha384-'' @ b64encode (sha384 ''alert(1)'')
          @ ''\"></script><script src=\"app.js\" integrity=\"sha384-'' @ b64encode (sha384 ''alert(1)'')
          @ ''\" integrity=\"sha384-'' @ b64encode (sha384 ''alert(1)'')
          @ ''\"></script><p>hi</p>'')"
    by (simp add: model_defs fs_twice_def tpl_twice_def replace_src_skip_b64 replace_contents_skip_b64)
  from finditer_tpl_twice a b c show ?thesis by blast
qed


end
